theory Spec2Isabelle
  imports Main "HOL-Library.Sublist"
begin

section \<open>Values of the program\<close>

text \<open>
  The lock file, the oracle's answer and the translator's argument payload are JSON
  documents. \<open>json.load\<close> yields a tree of fresh objects (no sharing), so in-place
  mutation of a sub-dictionary is modelled by rebuilding the enclosing value. A Python
  \<open>dict\<close> keeps its keys unique and in insertion order: it is an association
  list, changed only through the operations below. A float is carried by its literal.
\<close>

datatype json =
    JNull
  | JBool bool
  | JInt int
  | JFloat string
  | JStr string
  | JArr "json list"
  | JObj "(string \<times> json) list"

text \<open>
  The exceptions the code can end with. \<open>Exception\<close> carries the message of the
  \<open>raise Exception(...)\<close> statements, \<open>SystemExit\<close> the argument of \<open>exit\<close>.
\<close>

datatype exn =
    Exception string
  | SystemExit int
  | KeyError string
  | TypeError
  | AttributeError
  | JSONDecodeError
  | UnicodeDecodeError
  | FileNotFoundError
  | PermissionError
  | FileExistsError
  | IsADirectoryError
  | OSError

subsection \<open>Dictionaries\<close>

type_synonym dict = "(string \<times> json) list"

definition dict_get :: "dict \<Rightarrow> string \<Rightarrow> json option" where
  "dict_get d k = map_of d k"

definition dict_keys :: "dict \<Rightarrow> string list" where
  "dict_keys d = map fst d"

text \<open>\<open>d[k] = v\<close>: an existing key keeps its position, a new key is appended.\<close>

fun dict_set :: "string \<Rightarrow> json \<Rightarrow> dict \<Rightarrow> dict" where
  "dict_set k v [] = [(k, v)]"
| "dict_set k v ((k', v') # d) =
     (if k' = k then (k, v) # d else (k', v') # dict_set k v d)"

text \<open>\<open>d.update(e)\<close>: the items of \<open>e\<close> are stored one after the other.\<close>

definition dict_update :: "dict \<Rightarrow> dict \<Rightarrow> dict" where
  "dict_update d e = foldl (\<lambda>acc (k, v). dict_set k v acc) d e"

text \<open>\<open>del d[k]\<close> raises \<open>KeyError\<close> when the key is absent.\<close>

definition dict_del :: "string \<Rightarrow> dict \<Rightarrow> exn + dict" where
  "dict_del k d =
     (if k \<in> set (dict_keys d) then Inr (filter (\<lambda>(k', v). k' \<noteq> k) d)
      else Inl (KeyError k))"

text \<open>
  Subscription \<open>x[k]\<close>, \<open>del x[k]\<close> and \<open>x[k] = v\<close> with a string key on an
  arbitrary JSON value: anything but a dictionary raises \<open>TypeError\<close>.
\<close>

fun getitem :: "json \<Rightarrow> string \<Rightarrow> exn + json" where
  "getitem (JObj d) k =
     (case dict_get d k of None \<Rightarrow> Inl (KeyError k) | Some v \<Rightarrow> Inr v)"
| "getitem _ k = Inl TypeError"

fun delitem :: "json \<Rightarrow> string \<Rightarrow> exn + json" where
  "delitem (JObj d) k =
     (case dict_del k d of Inl e \<Rightarrow> Inl e | Inr d' \<Rightarrow> Inr (JObj d'))"
| "delitem _ k = Inl TypeError"

fun setitem :: "json \<Rightarrow> string \<Rightarrow> json \<Rightarrow> exn + json" where
  "setitem (JObj d) k v = Inr (JObj (dict_set k v d))"
| "setitem _ k v = Inl TypeError"

text \<open>\<open>x.values()\<close> exists on dictionaries only.\<close>

fun items_of :: "json \<Rightarrow> exn + dict" where
  "items_of (JObj d) = Inr d"
| "items_of _ = Inl AttributeError"

section \<open>\<open>strip_hashes_from_lock\<close>\<close>

text \<open>
  \<^verbatim>\<open>
  def strip_hashes_from_lock(lock):
    for source in lock['sources'].values():
      del source['hash']
  \<close>
  The loop visits the entries in order and stops at the first \<open>del\<close> that raises.
\<close>

fun strip_sources :: "dict \<Rightarrow> exn + dict" where
  "strip_sources [] = Inr []"
| "strip_sources ((sid, source) # rest) =
     (case delitem source ''hash'' of
        Inl e \<Rightarrow> Inl e
      | Inr source' \<Rightarrow>
          (case strip_sources rest of
             Inl e \<Rightarrow> Inl e
           | Inr rest' \<Rightarrow> Inr ((sid, source') # rest')))"

definition strip_hashes_from_lock :: "json \<Rightarrow> exn + json" where
  "strip_hashes_from_lock lock =
     (case getitem lock ''sources'' of
        Inl e \<Rightarrow> Inl e
      | Inr sources \<Rightarrow>
          (case items_of sources of
             Inl e \<Rightarrow> Inl e
           | Inr entries \<Rightarrow>
               (case strip_sources entries of
                  Inl e \<Rightarrow> Inl e
                | Inr entries' \<Rightarrow> setitem lock ''sources'' (JObj entries'))))"

text \<open>\<open>lock['generic']['sourcesCombinedHash'] = h\<close>\<close>

definition set_combined_hash :: "json \<Rightarrow> string \<Rightarrow> exn + json" where
  "set_combined_hash lock h =
     (case getitem lock ''generic'' of
        Inl e \<Rightarrow> Inl e
      | Inr generic \<Rightarrow>
          (case setitem generic ''sourcesCombinedHash'' (JStr h) of
             Inl e \<Rightarrow> Inl e
           | Inr generic' \<Rightarrow> setitem lock ''generic'' generic'))"

text \<open>A source entry holds a hash when it is a dictionary with the key \<open>hash\<close>.\<close>

definition has_hash :: "json \<Rightarrow> bool" where
  "has_hash e = (case e of JObj d \<Rightarrow> ''hash'' \<in> set (dict_keys d) | _ \<Rightarrow> False)"

section \<open>The search for the hash token\<close>

text \<open>
  \<open>re.search(r"FOD_PATH=(.*=)", text)\<close>. The text is what \<open>decode()\<close> returns; it
  is modelled by its UTF-8 bytes, in which the bytes of a non-ASCII character never equal
  an ASCII one, so that the match is the same. Without \<open>DOTALL\<close> the dot matches
  everything but the line feed. \<open>dot_star_eq\<close> is the backtracking of \<open>.*=\<close>: the
  star first lets the dot take one more character, and only when the rest fails is
  \<open>=\<close> tried at this place. It returns group 1.
\<close>

definition FOD_PATH :: string where
  "FOD_PATH = ''FOD_PATH=''"

fun dot_star_eq :: "string \<Rightarrow> string option" where
  "dot_star_eq [] = None"
| "dot_star_eq (c # cs) =
     (if c = CHR 0x0A then None
      else (case dot_star_eq cs of
              Some g \<Rightarrow> Some (c # g)
            | None \<Rightarrow> if c = CHR ''='' then Some [c] else None))"

definition match_here :: "string \<Rightarrow> string option" where
  "match_here s =
     (if prefix FOD_PATH s then dot_star_eq (drop (length FOD_PATH) s) else None)"

text \<open>The search tries every start position from the left and keeps the first match.\<close>

fun re_search :: "string \<Rightarrow> string option" where
  "re_search [] = match_here []"
| "re_search (c # cs) =
     (case match_here (c # cs) of Some g \<Rightarrow> Some g | None \<Rightarrow> re_search cs)"

section \<open>The file system\<close>

text \<open>
  A path names nothing, a regular file with its content, a directory, a symbolic link
  with its target, or a special file (device, socket, pipe). \<open>os.path.exists\<close>,
  \<open>isfile\<close> and \<open>isdir\<close> look through symbolic links (at most 40 of them, as
  the kernel does; more is a loop and counts as absent); \<open>os.remove\<close> unlinks the
  name itself. Path normalisation is left to \<open>realpath\<close>, a parameter.
  \<open>follow n\<close> visits at most \<open>n\<close> names, the last of which is not a link, so 40
  links take 41.
\<close>

type_synonym path = string

datatype node = File string | Dir | Link path | Special

type_synonym fs = "path \<Rightarrow> node option"

fun follow :: "nat \<Rightarrow> fs \<Rightarrow> path \<Rightarrow> path option" where
  "follow 0 f p = None"
| "follow (Suc n) f p =
     (case f p of Some (Link q) \<Rightarrow> follow n f q | _ \<Rightarrow> Some p)"

definition stat :: "fs \<Rightarrow> path \<Rightarrow> node option" where
  "stat f p = (case follow 41 f p of None \<Rightarrow> None | Some q \<Rightarrow> f q)"

definition path_exists :: "fs \<Rightarrow> path \<Rightarrow> bool" where
  "path_exists f p = (stat f p \<noteq> None)"

definition path_isfile :: "fs \<Rightarrow> path \<Rightarrow> bool" where
  "path_isfile f p = (case stat f p of Some (File c) \<Rightarrow> True | _ \<Rightarrow> False)"

definition path_isdir :: "fs \<Rightarrow> path \<Rightarrow> bool" where
  "path_isdir f p = (case stat f p of Some Dir \<Rightarrow> True | _ \<Rightarrow> False)"

definition os_remove :: "path \<Rightarrow> fs \<Rightarrow> exn + fs" where
  "os_remove p f =
     (case f p of
        None \<Rightarrow> Inl FileNotFoundError
      | Some Dir \<Rightarrow> Inl IsADirectoryError
      | Some _ \<Rightarrow> Inr (f(p := None)))"

text \<open>
  \<open>open(p).read()\<close> and \<open>open(p, 'w').write(c)\<close>; both look through links.
  What reading or writing a special file does depends on the device; it is taken as an
  \<open>OSError\<close> here. \<open>translate\<close> reads the output path only after
  \<open>os.path.isfile\<close> held for it.
\<close>

definition open_read :: "path \<Rightarrow> fs \<Rightarrow> exn + string" where
  "open_read p f =
     (case stat f p of
        Some (File c) \<Rightarrow> Inr c
      | Some Dir \<Rightarrow> Inl IsADirectoryError
      | Some _ \<Rightarrow> Inl OSError
      | None \<Rightarrow> Inl FileNotFoundError)"

definition open_write :: "path \<Rightarrow> string \<Rightarrow> fs \<Rightarrow> exn + fs" where
  "open_write p c f =
     (case follow 41 f p of
        None \<Rightarrow> Inl OSError
      | Some q \<Rightarrow>
          (case f q of
             Some Dir \<Rightarrow> Inl IsADirectoryError
           | Some Special \<Rightarrow> Inl OSError
           | _ \<Rightarrow> Inr (f(q \<mapsto> File c))))"

section \<open>External programs and the library\<close>

text \<open>
  A captured stream is bytes, tagged here by whether they are UTF-8;
  \<open>decode()\<close> raises on bytes that are not.
\<close>

datatype bytes = Utf8 string | NotUtf8 string

fun decode :: "bytes \<Rightarrow> exn + string" where
  "decode (Utf8 s) = Inr s"
| "decode (NotUtf8 s) = Inl UnicodeDecodeError"

text \<open>
  What \<open>json.loads\<close> and \<open>json.load\<close> make of their input: a value, a
  \<open>UnicodeDecodeError\<close> (the input is not text in the encoding found or expected), or a
  \<open>JSONDecodeError\<close>.
\<close>

datatype parsed = Parsed json | Undecodable | Malformed

fun parsed_result :: "parsed \<Rightarrow> exn + json" where
  "parsed_result (Parsed j) = Inr j"
| "parsed_result Undecodable = Inl UnicodeDecodeError"
| "parsed_result Malformed = Inl JSONDecodeError"

text \<open>
  Why \<open>subprocess.run\<close> raises instead of returning: the program is not there, or may
  not be executed.
\<close>

datatype start_error = NotFound | NotPermitted

fun start_exn :: "start_error \<Rightarrow> exn" where
  "start_exn NotFound = FileNotFoundError"
| "start_exn NotPermitted = PermissionError"

record proc =
  returncode :: int
  stdout :: bytes
  stderr :: bytes

text \<open>
  The four \<open>sp.run\<close> calls of \<open>translate\<close>, each with the data the code puts into
  its command line or environment: the oracle (\<open>nix eval\<close>, with \<open>FUNC_ARGS\<close>), the
  build of the translator, the translator itself (its path, the argument file and
  \<open>sys.argv[1:]\<close>), and the build of the combined sources.
\<close>

datatype cmd =
    NixEval string path
  | NixBuildTranslator string json json json
  | Translate path path "string list"
  | NixBuildFetchSources string path

fun is_eval :: "cmd \<Rightarrow> bool" where
  "is_eval (NixEval src a) = True"
| "is_eval _ = False"

fun is_build :: "cmd \<Rightarrow> bool" where
  "is_build (NixBuildTranslator src s t n) = True"
| "is_build _ = False"

fun is_translate :: "cmd \<Rightarrow> bool" where
  "is_translate (Translate tp a av) = True"
| "is_translate _ = False"

fun is_fetch :: "cmd \<Rightarrow> bool" where
  "is_fetch (NixBuildFetchSources src out) = True"
| "is_fetch _ = False"

text \<open>
  What the program takes from outside: the environment variable, \<open>sys.argv[1:]\<close>,
  \<open>os.path.realpath\<close>, the name \<open>tempfile\<close> picks, whether a subprocess can be
  started and, if so, its behaviour (its result and what it does to the file system), and
  the \<open>json\<close> codec: \<open>json_loads\<close> on the content of a file opened as text,
  \<open>json_loads_bytes\<close> on captured bytes (whose encoding \<open>json.loads\<close> detects by
  itself: UTF-8, UTF-16 or UTF-32), \<open>json_dumps\<close> for the text written.
\<close>

record env =
  dream2nixSrc :: string
  argv :: "string list"
  realpath :: "fs \<Rightarrow> path \<Rightarrow> path"
  mkstemp :: "fs \<Rightarrow> path"
  sp_start :: "cmd \<Rightarrow> fs \<Rightarrow> start_error option"
  sp_run :: "cmd \<Rightarrow> fs \<Rightarrow> proc \<times> fs"
  json_loads :: "string \<Rightarrow> parsed"
  json_loads_bytes :: "bytes \<Rightarrow> parsed"
  json_dumps :: "json \<Rightarrow> string"

text \<open>
  The state of a run: the file system and what was printed. \<open>calls\<close> is a log kept
  for the statements only: every call of \<open>sp.run\<close> with the file system it was made
  on, whether or not the program could be started.
\<close>

record world =
  fsys :: fs
  out :: "string list"
  err :: "string list"
  calls :: "(cmd \<times> fs) list"

type_synonym 'a io = "world \<Rightarrow> (exn + 'a) \<times> world"

definition ret :: "'a \<Rightarrow> 'a io" where
  "ret x = (\<lambda>w. (Inr x, w))"

definition raise :: "exn \<Rightarrow> 'a io" where
  "raise e = (\<lambda>w. (Inl e, w))"

definition bind :: "'a io \<Rightarrow> ('a \<Rightarrow> 'b io) \<Rightarrow> 'b io" where
  "bind m k = (\<lambda>w. case m w of (Inl e, w') \<Rightarrow> (Inl e, w') | (Inr x, w') \<Rightarrow> k x w')"

definition lift :: "exn + 'a \<Rightarrow> 'a io" where
  "lift r = (\<lambda>w. (r, w))"

definition gets :: "(fs \<Rightarrow> 'a) \<Rightarrow> 'a io" where
  "gets g = (\<lambda>w. (Inr (g (fsys w)), w))"

definition gets_e :: "(fs \<Rightarrow> exn + 'a) \<Rightarrow> 'a io" where
  "gets_e g = (\<lambda>w. (g (fsys w), w))"

definition fs_op :: "(fs \<Rightarrow> exn + fs) \<Rightarrow> unit io" where
  "fs_op g = (\<lambda>w. case g (fsys w) of Inl e \<Rightarrow> (Inl e, w) | Inr f' \<Rightarrow> (Inr (), w\<lparr>fsys := f'\<rparr>))"

definition print_out :: "string \<Rightarrow> unit io" where
  "print_out s = (\<lambda>w. (Inr (), w\<lparr>out := out w @ [s]\<rparr>))"

definition print_err :: "string \<Rightarrow> unit io" where
  "print_err s = (\<lambda>w. (Inr (), w\<lparr>err := err w @ [s]\<rparr>))"

text \<open>
  \<open>sp.run(...)\<close>: raises when the program cannot be started, and otherwise waits
  for it and returns its result, whatever its return code.
\<close>

definition run :: "env \<Rightarrow> cmd \<Rightarrow> proc io" where
  "run E c =
     (\<lambda>w. case sp_start E c (fsys w) of
        Some se \<Rightarrow> (Inl (start_exn se), w\<lparr>calls := calls w @ [(c, fsys w)]\<rparr>)
      | None \<Rightarrow>
          (case sp_run E c (fsys w) of
             (p, f') \<Rightarrow> (Inr p, w\<lparr>fsys := f', calls := calls w @ [(c, fsys w)]\<rparr>)))"

text \<open>
  \<open>with tempfile.NamedTemporaryFile("w") as f\<close>: a new empty file under a name that
  is not taken. However the body ends, leaving the block closes the file and unlinks its
  name; when a subprocess has removed the name in the meantime, that \<open>unlink\<close> raises
  (\<open>FileNotFoundError\<close>, as in Python up to 3.11), and its exception is the one that
  leaves the block, also when the body had raised another.
\<close>

definition with_tempfile :: "env \<Rightarrow> (path \<Rightarrow> 'a io) \<Rightarrow> 'a io" where
  "with_tempfile E body =
     (\<lambda>w. let name = mkstemp E (fsys w) in
        if fsys w name \<noteq> None then (Inl FileExistsError, w)
        else (case body name (w\<lparr>fsys := (fsys w)(name \<mapsto> File [])\<rparr>) of
                (r, w') \<Rightarrow>
                  (case os_remove name (fsys w') of
                     Inl e \<Rightarrow> (Inl e, w')
                   | Inr f' \<Rightarrow> (r, w'\<lparr>fsys := f'\<rparr>))))"

text \<open>
  \<open>json.dump(x, f); f.seek(0)\<close> on the open temporary file. The second dump starts
  at offset 0 again and writes a dictionary with all keys of the first, so nothing of the
  first remains. A file is known by its path here: the write goes to the name, which is
  where the open file is as long as no subprocess has removed or replaced the name.
\<close>

definition dump_tmp :: "env \<Rightarrow> path \<Rightarrow> json \<Rightarrow> unit io" where
  "dump_tmp E name x = (\<lambda>w. (Inr (), w\<lparr>fsys := (fsys w)(name \<mapsto> File (json_dumps E x))\<rparr>))"

definition loads_bytes :: "env \<Rightarrow> bytes \<Rightarrow> exn + json" where
  "loads_bytes E b = parsed_result (json_loads_bytes E b)"

text \<open>\<open>with open(p) as f: json.load(f)\<close> and \<open>with open(p, 'w') as f: json.dump(x, f)\<close>\<close>

definition load_file :: "env \<Rightarrow> path \<Rightarrow> json io" where
  "load_file E p =
     bind (gets_e (open_read p)) (\<lambda>c. lift (parsed_result (json_loads E c)))"

definition dump_file :: "env \<Rightarrow> path \<Rightarrow> json \<Rightarrow> unit io" where
  "dump_file E p x = fs_op (open_write p (json_dumps E x))"

section \<open>\<open>translate\<close>\<close>

text \<open>
  The parsed command line: the four declared attributes (\<open>output_arg\<close> is
  \<open>args.output\<close>) and, in \<open>dynamic\<close>, the
  attributes of the flags registered while parsing (\<open>--arg_<name>\<close> is stored as
  \<open>arg_<name>\<close>). \<open>vars_args\<close> is \<open>vars(args).items()\<close>; the attribute
  \<open>func\<close>, whose name does not start with \<open>arg_\<close>, is left out.
\<close>

record args =
  translator :: string
  output_arg :: path
  combined :: bool
  input :: "path list"
  dynamic :: dict

definition vars_args :: "args \<Rightarrow> dict" where
  "vars_args a =
     [(''translator'', JStr (translator a)),
      (''output'', JStr (output_arg a)),
      (''combined'', JBool (combined a)),
      (''input'', JArr (map JStr (input a)))] @ dynamic a"

text \<open>Lines 50 to 54: collect special args.\<close>

fun collect_special_args :: "dict \<Rightarrow> dict \<Rightarrow> dict" where
  "collect_special_args specialArgs [] = specialArgs"
| "collect_special_args specialArgs ((argName, argVal) # rest) =
     (if prefix ''arg_'' argName
      then collect_special_args (dict_set (drop 4 argName) argVal specialArgs) rest
      else collect_special_args specialArgs rest)"

text \<open>Lines 56 to 62: check that all inputs exist, then split them.\<close>

fun check_inputs :: "fs \<Rightarrow> path list \<Rightarrow> exn + unit" where
  "check_inputs f [] = Inr ()"
| "check_inputs f (p # ps) =
     (if \<not> path_exists f p
      then Inl (Exception (''Input path '' @ [CHR 0x27] @ p @ [CHR 0x27] @ '' does not exist''))
      else check_inputs f ps)"

definition validate_inputs :: "path list \<Rightarrow> fs \<Rightarrow> exn + path list \<times> path list" where
  "validate_inputs inputPaths f =
     (case check_inputs f inputPaths of
        Inl e \<Rightarrow> Inl e
      | Inr u \<Rightarrow> Inr (filter (path_isfile f) inputPaths, filter (path_isdir f) inputPaths))"

text \<open>Lines 64 to 69: determine the output file.\<close>

definition resolve_output :: "env \<Rightarrow> args \<Rightarrow> fs \<Rightarrow> path" where
  "resolve_output E a f =
     realpath E f (if path_isdir f (output_arg a) then output_arg a @ ''/dream.lock'' else output_arg a)"

text \<open>Lines 71 to 78: the translator arguments.\<close>

definition computed_fields :: "path list \<Rightarrow> path list \<Rightarrow> path \<Rightarrow> string \<Rightarrow> dict" where
  "computed_fields inputFiles inputDirectories outputFile selector =
     [(''inputFiles'', JArr (map JStr inputFiles)),
      (''inputDirectories'', JArr (map JStr inputDirectories)),
      (''outputFile'', JStr outputFile),
      (''selector'', JStr selector)]"

definition translator_input :: "path list \<Rightarrow> path list \<Rightarrow> path \<Rightarrow> string \<Rightarrow> dict \<Rightarrow> dict" where
  "translator_input inputFiles inputDirectories outputFile selector specialArgs =
     dict_update (computed_fields inputFiles inputDirectories outputFile selector) specialArgs"

text \<open>Lines 111 to 113: \<open>defaults.update(translatorInput)\<close> on the oracle's value.\<close>

fun with_defaults :: "json \<Rightarrow> dict \<Rightarrow> exn + json" where
  "with_defaults (JObj defaults) translatorInput = Inr (JObj (dict_update defaults translatorInput))"
| "with_defaults _ translatorInput = Inl AttributeError"

text \<open>Lines 80 to 82: remove the output file if it exists.\<close>

definition remove_output :: "path \<Rightarrow> unit io" where
  "remove_output p =
     bind (gets (\<lambda>f. path_exists f p)) (\<lambda>ex.
       if ex then fs_op (os_remove p) else ret ())"

text \<open>
  The failure branch after the oracle and after the build (lines 100 to 103 and 125
  to 128): a line on stdout, the captured stderr on stderr, \<open>exit(1)\<close>.
\<close>

definition fail_if_nonzero :: "proc \<Rightarrow> string \<Rightarrow> unit io" where
  "fail_if_nonzero p msg =
     (if returncode p \<noteq> 0
      then bind (print_out msg) (\<lambda>u.
           bind (lift (decode (stderr p))) (\<lambda>s.
           bind (print_err s) (\<lambda>u. raise (SystemExit 1))))
      else ret ())"

text \<open>
  Lines 85 to 115: write the arguments, ask the oracle, parse its answer and write the
  arguments again with the defaults included.
\<close>

definition select_translator :: "env \<Rightarrow> dict \<Rightarrow> path \<Rightarrow> (json \<times> json \<times> json) io" where
  "select_translator E translatorInput inputJsonFile =
     bind (dump_tmp E inputJsonFile (JObj translatorInput)) (\<lambda>u.
     bind (run E (NixEval (dream2nixSrc E) inputJsonFile)) (\<lambda>procEval.
     bind (fail_if_nonzero procEval ''Selecting translator failed'') (\<lambda>u.
     bind (lift (loads_bytes E (stdout procEval))) (\<lambda>resultEval.
     bind (lift (getitem resultEval ''subsystem'')) (\<lambda>subsystem.
     bind (lift (getitem resultEval ''type'')) (\<lambda>trans_type.
     bind (lift (getitem resultEval ''name'')) (\<lambda>trans_name.
     bind (lift (getitem resultEval ''SpecialArgsDefaults'')) (\<lambda>defaults.
     bind (lift (with_defaults defaults translatorInput)) (\<lambda>translatorInputWithDefaults.
     bind (dump_tmp E inputJsonFile translatorInputWithDefaults) (\<lambda>u.
     ret (subsystem, trans_type, trans_name)))))))))))"

text \<open>Lines 117 to 128: build the translator.\<close>

definition build_translator :: "env \<Rightarrow> json \<Rightarrow> json \<Rightarrow> json \<Rightarrow> unit io" where
  "build_translator E subsystem trans_type trans_name =
     bind (run E (NixBuildTranslator (dream2nixSrc E) subsystem trans_type trans_name)) (\<lambda>procBuild.
     fail_if_nonzero procBuild ''Building translator failed'')"

text \<open>
  Lines 130 to 135: resolve and remove the build link, then execute the translator. Its
  result object is dropped.
\<close>

definition execute_translator :: "env \<Rightarrow> path \<Rightarrow> unit io" where
  "execute_translator E inputJsonFile =
     bind (gets (\<lambda>f. realpath E f ''translator'')) (\<lambda>translatorPath.
     bind (fs_op (os_remove ''translator'')) (\<lambda>u.
     bind (run E (Translate translatorPath inputJsonFile (argv E))) (\<lambda>procTranslate.
     ret ())))"

text \<open>Lines 85 to 135: the body of the \<open>with\<close> block.\<close>

definition select_build_run :: "env \<Rightarrow> dict \<Rightarrow> path \<Rightarrow> unit io" where
  "select_build_run E translatorInput inputJsonFile =
     bind (select_translator E translatorInput inputJsonFile) (\<lambda>(subsystem, trans_type, trans_name).
     bind (build_translator E subsystem trans_type trans_name) (\<lambda>u.
     execute_translator E inputJsonFile))"

text \<open>Lines 165 to 171: read the output hash from the failed build log.\<close>

definition read_output_hash :: "proc \<Rightarrow> string io" where
  "read_output_hash p =
     bind (lift (decode (stderr p))) (\<lambda>log.
       case re_search log of
         None \<Rightarrow>
           bind (lift (decode (stderr p))) (\<lambda>errText.
           bind (print_out errText) (\<lambda>u.
           bind (lift (decode (stdout p))) (\<lambda>outText.
           bind (print_out outText) (\<lambda>u.
           raise (Exception ''Could not find FOD hash in FOD log'')))))
       | Some hash \<Rightarrow> ret hash)"

text \<open>
  Lines 150 to 154, up to the first write of the stripped lock (checkpoint A), and
  lines 146 to 177, the whole pass.
\<close>

definition strip_and_reset :: "json \<Rightarrow> exn + json" where
  "strip_and_reset lock =
     (case strip_hashes_from_lock lock of
        Inl e \<Rightarrow> Inl e
      | Inr lock' \<Rightarrow> set_combined_hash lock' [])"

definition calculate_combined_hash :: "env \<Rightarrow> path \<Rightarrow> json \<Rightarrow> unit io" where
  "calculate_combined_hash E outp lock =
     bind (print_out ''Start building FOD for combined sources to get output hash'') (\<lambda>u.
     bind (lift (strip_and_reset lock)) (\<lambda>lockA.
     bind (dump_file E outp lockA) (\<lambda>u.
     bind (run E (NixBuildFetchSources (dream2nixSrc E) outp)) (\<lambda>p.
     bind (read_output_hash p) (\<lambda>hash.
     bind (print_out (''Computed FOD hash: '' @ hash)) (\<lambda>u.
     bind (lift (set_combined_hash lockA hash)) (\<lambda>lockB.
     dump_file E outp lockB)))))))"

text \<open>Lines 46 to 143: everything up to the lock that was read back.\<close>

definition produce_lock :: "env \<Rightarrow> args \<Rightarrow> (path \<times> json) io" where
  "produce_lock E a =
     (let inputPaths = input a;
          specialArgs = collect_special_args [] (vars_args a)
      in bind (gets_e (validate_inputs inputPaths)) (\<lambda>(inputFiles, inputDirectories).
         bind (gets (resolve_output E a)) (\<lambda>outp.
         bind (remove_output outp) (\<lambda>u.
         bind (with_tempfile E
                 (select_build_run E
                    (translator_input inputFiles inputDirectories outp (translator a) specialArgs)))
           (\<lambda>u.
         bind (gets (\<lambda>f. path_isfile f outp)) (\<lambda>produced.
         bind (if \<not> produced then raise (Exception ''Translator failed to create dream.lock'')
               else ret ()) (\<lambda>u.
         bind (load_file E outp) (\<lambda>lock.
         ret (outp, lock)))))))))"

definition translate :: "env \<Rightarrow> args \<Rightarrow> unit io" where
  "translate E a =
     bind (produce_lock E a) (\<lambda>(outp, lock).
     bind (if combined a then calculate_combined_hash E outp lock else ret ()) (\<lambda>u.
     print_out (''Created '' @ outp)))"

text \<open>
  The exit status of the process: 0 when \<open>translate\<close> returns, the argument of
  \<open>exit\<close>, and 1 when an exception reaches the top.
\<close>

fun exit_code :: "exn + unit \<Rightarrow> int" where
  "exit_code (Inr u) = 0"
| "exit_code (Inl (SystemExit n)) = n"
| "exit_code (Inl e) = 1"

section \<open>Sample data\<close>

text \<open>Concrete values on which the statements below are run.\<close>

definition lock_demo :: json where
  "lock_demo =
     JObj [(''generic'', JObj [(''sourcesCombinedHash'', JStr [])]),
           (''sources'', JObj [(''a'', JObj [(''url'', JStr ''u1''), (''hash'', JStr ''h1'')]),
                               (''b'', JObj [(''hash'', JStr ''h2''), (''type'', JStr ''git'')])])]"

definition lock_demo_A :: json where
  "lock_demo_A =
     JObj [(''generic'', JObj [(''sourcesCombinedHash'', JStr [])]),
           (''sources'', JObj [(''a'', JObj [(''url'', JStr ''u1'')]),
                               (''b'', JObj [(''type'', JStr ''git'')])])]"

definition lock_broken :: json where
  "lock_broken =
     JObj [(''generic'', JObj []),
           (''sources'', JObj [(''a'', JObj [(''hash'', JStr ''h1'')]),
                               (''b'', JObj [(''type'', JStr ''git'')])])]"

definition fs_demo :: fs where
  "fs_demo = (\<lambda>p. if p = ''pkg.json'' then Some (File ''{}'')
                   else if p = ''src'' then Some Dir
                   else if p = ''link'' then Some (Link ''pkg.json'')
                   else None)"

definition args_demo :: args where
  "args_demo = \<lparr> translator = ''npm.package-lock'', output_arg = ''out'', combined = True,
                 input = [''pkg.json''],
                 dynamic = [(''arg_dev'', JStr ''yes''), (''arg_selector'', JStr ''forced'')] \<rparr>"

definition defaults_demo :: dict where
  "defaults_demo = [(''dev'', JStr ''no''), (''optional'', JStr ''false''), (''outputFile'', JStr ''ignored'')]"

definition world_demo :: world where
  "world_demo = \<lparr> fsys = fs_demo, out = [], err = [], calls = [] \<rparr>"

definition proc_hit :: proc where
  "proc_hit = \<lparr> returncode = 1, stdout = Utf8 ''building'',
                stderr = Utf8 (''e: '' @ ''FOD_PATH=abc123=='' @ '' wanted'') \<rparr>"

definition proc_miss :: proc where
  "proc_miss = \<lparr> returncode = 1, stdout = Utf8 ''building'',
                 stderr = Utf8 ''error: FOD_PATH=abc123'' \<rparr>"

text \<open>
  A sample environment. The codec reads two documents, the oracle's answer and the lock
  the translator writes, and writes a value out in full (every number as \<open>0\<close>: the
  samples have none). Every program can be started. The oracle returns the given code;
  the build leaves its link; the translator writes the lock to \<open>out\<close> and returns 3;
  the build of the combined sources fails with the given diagnostics.
\<close>

definition oracle_answer :: json where
  "oracle_answer =
     JObj [(''subsystem'', JStr ''nodejs''), (''type'', JStr ''pure''),
           (''name'', JStr ''package-lock''), (''SpecialArgsDefaults'', JObj defaults_demo)]"

definition loads_demo :: "string \<Rightarrow> parsed" where
  "loads_demo s =
     (if s = ''SEL'' then Parsed oracle_answer
      else if s = ''LOCK'' then Parsed lock_demo
      else Malformed)"

fun loads_bytes_demo :: "bytes \<Rightarrow> parsed" where
  "loads_bytes_demo (Utf8 s) = loads_demo s"
| "loads_bytes_demo (NotUtf8 s) = Undecodable"

fun dumps_demo :: "json \<Rightarrow> string" where
  "dumps_demo JNull = ''null''"
| "dumps_demo (JBool b) = (if b then ''true'' else ''false'')"
| "dumps_demo (JInt i) = ''0''"
| "dumps_demo (JFloat s) = s"
| "dumps_demo (JStr s) = [CHR 0x22] @ s @ [CHR 0x22]"
| "dumps_demo (JArr xs) = ''['' @ concat (map (\<lambda>x. dumps_demo x @ '','') xs) @ '']''"
| "dumps_demo (JObj kvs) =
     ''{'' @ concat (map (\<lambda>kv. [CHR 0x22] @ fst kv @ [CHR 0x22] @ '':'' @ dumps_demo (snd kv) @ '','') kvs) @ ''}''"

definition run_demo :: "int \<Rightarrow> string \<Rightarrow> cmd \<Rightarrow> fs \<Rightarrow> proc \<times> fs" where
  "run_demo rc log c f =
     (case c of
        NixEval src a \<Rightarrow>
          (\<lparr>returncode = rc, stdout = Utf8 ''SEL'', stderr = Utf8 ''oracle''\<rparr>, f)
      | NixBuildTranslator src s t n \<Rightarrow>
          (\<lparr>returncode = 0, stdout = Utf8 [], stderr = Utf8 []\<rparr>,
           f(''translator'' \<mapsto> Link ''/nix/store/translator''))
      | Translate tp a av \<Rightarrow>
          (\<lparr>returncode = 3, stdout = Utf8 [], stderr = Utf8 []\<rparr>, f(''out'' \<mapsto> File ''LOCK''))
      | NixBuildFetchSources src p \<Rightarrow>
          (\<lparr>returncode = 1, stdout = Utf8 ''fetch'', stderr = Utf8 log\<rparr>, f))"

definition env_demo :: "int \<Rightarrow> string \<Rightarrow> env" where
  "env_demo rc log =
     \<lparr> dream2nixSrc = ''/d2n'', argv = [''translate'', ''pkg.json''],
       realpath = (\<lambda>f p. p), mkstemp = (\<lambda>f. ''/tmp/args''),
       sp_start = (\<lambda>c f. None), sp_run = run_demo rc log,
       json_loads = loads_demo, json_loads_bytes = loads_bytes_demo, json_dumps = dumps_demo \<rparr>"

text \<open>A start state in which a file already is at the output path.\<close>

definition world_stale :: world where
  "world_stale = world_demo\<lparr>fsys := (fsys world_demo)(''out'' \<mapsto> File ''OLD'')\<rparr>"

text \<open>The lock after the whole pass, with the hash \<open>abc=\<close>.\<close>

definition lock_demo_B :: json where
  "lock_demo_B =
     JObj [(''generic'', JObj [(''sourcesCombinedHash'', JStr ''abc='')]),
           (''sources'', JObj [(''a'', JObj [(''url'', JStr ''u1'')]),
                               (''b'', JObj [(''type'', JStr ''git'')])])]"

text \<open>
  A translator that writes nothing, one that writes nothing and removes the argument
  file it was given, and one that cannot be started.
\<close>

definition run_idle :: "cmd \<Rightarrow> fs \<Rightarrow> proc \<times> fs" where
  "run_idle c f =
     (case c of
        Translate tp a av \<Rightarrow> (\<lparr>returncode = 0, stdout = Utf8 ''done'', stderr = Utf8 []\<rparr>, f)
      | _ \<Rightarrow> run_demo 0 [] c f)"

definition env_idle :: env where
  "env_idle = (env_demo 0 [])\<lparr>sp_run := run_idle\<rparr>"

definition run_gone :: "cmd \<Rightarrow> fs \<Rightarrow> proc \<times> fs" where
  "run_gone c f =
     (case c of
        Translate tp a av \<Rightarrow> (\<lparr>returncode = 0, stdout = Utf8 [], stderr = Utf8 []\<rparr>, f(a := None))
      | _ \<Rightarrow> run_demo 0 [] c f)"

definition env_gone :: env where
  "env_gone = (env_demo 0 [])\<lparr>sp_run := run_gone\<rparr>"

definition env_nostart :: env where
  "env_nostart = (env_demo 0 [])\<lparr>sp_start := (\<lambda>c f. if is_translate c then Some NotFound else None)\<rparr>"
section \<open>Properties of the dictionaries and of the search\<close>




lemma map_of_dict_set: "map_of (dict_set k v d) = (map_of d)(k \<mapsto> v)"
  by (induction d) (auto simp: fun_eq_iff)

lemma dict_get_set: "dict_get (dict_set k v d) k' = (if k' = k then Some v else dict_get d k')"
  by (simp add: dict_get_def map_of_dict_set)

lemma dict_keys_set:
  "dict_keys (dict_set k v d) = (if k \<in> set (dict_keys d) then dict_keys d else dict_keys d @ [k])"
  by (induction d) (force simp: dict_keys_def)+

lemma keys_dict_set: "set (dict_keys (dict_set k v d)) = insert k (set (dict_keys d))"
  by (auto simp: dict_keys_set)

lemma takeWhile_line:
  "CHR 0x0A \<notin> set h \<Longrightarrow>
     takeWhile (\<lambda>c. c \<noteq> CHR 0x0A) (h @ r) = h @ takeWhile (\<lambda>c. c \<noteq> CHR 0x0A) r"
  by (induction h) auto


lemma dot_star_eq_None:
  "dot_star_eq s = None \<Longrightarrow> CHR ''='' \<notin> set (takeWhile (\<lambda>c. c \<noteq> CHR 0x0A) s)"
  by (induction s) (auto split: if_splits option.splits)

lemma dot_star_eq_sound:
  "dot_star_eq s = Some g \<Longrightarrow>
     \<exists>h rest. g = h @ ''='' \<and> s = g @ rest \<and> CHR 0x0A \<notin> set h
       \<and> CHR ''='' \<notin> set (takeWhile (\<lambda>c. c \<noteq> CHR 0x0A) rest)"
proof (induction s arbitrary: g)
  case Nil
  then show ?case by simp
next
  case (Cons c cs)
  show ?case
  proof (cases "dot_star_eq cs")
    case None
    with Cons.prems have g: "c = CHR ''=''" "g = [c]"
      by (auto split: if_splits)
    have "CHR ''='' \<notin> set (takeWhile (\<lambda>c. c \<noteq> CHR 0x0A) cs)"
      using None by (rule dot_star_eq_None)
    with g have "g = [] @ ''='' \<and> c # cs = g @ cs \<and> CHR 0x0A \<notin> set ([]::string)
       \<and> CHR ''='' \<notin> set (takeWhile (\<lambda>c. c \<noteq> CHR 0x0A) cs)" by simp
    then show ?thesis by blast
  next
    case (Some g')
    with Cons.prems have g: "c \<noteq> CHR 0x0A" "g = c # g'"
      by (auto split: if_splits)
    from Cons.IH[OF Some] obtain h rest where
      "g' = h @ ''=''" "cs = g' @ rest" "CHR 0x0A \<notin> set h"
      "CHR ''='' \<notin> set (takeWhile (\<lambda>c. c \<noteq> CHR 0x0A) rest)" by blast
    with g have "g = (c # h) @ ''='' \<and> c # cs = g @ rest \<and> CHR 0x0A \<notin> set (c # h)
       \<and> CHR ''='' \<notin> set (takeWhile (\<lambda>c. c \<noteq> CHR 0x0A) rest)" by auto
    then show ?thesis by blast
  qed
qed

lemma dot_star_eq_complete:
  "CHR 0x0A \<notin> set h \<Longrightarrow> CHR ''='' \<notin> set (takeWhile (\<lambda>c. c \<noteq> CHR 0x0A) rest)
     \<Longrightarrow> dot_star_eq (h @ CHR ''='' # rest) = Some (h @ ''='')"
proof (induction h)
  case Nil
  have "dot_star_eq rest = None"
  proof (cases "dot_star_eq rest")
    case (Some g)
    from dot_star_eq_sound[OF Some] obtain h' r' where
      "g = h' @ ''=''" "rest = g @ r'" "CHR 0x0A \<notin> set h'" by blast
    then have "CHR ''='' \<in> set (takeWhile (\<lambda>c. c \<noteq> CHR 0x0A) rest)"
      by (simp add: takeWhile_line)
    with Nil show ?thesis by simp
  qed simp
  then show ?case by simp
next
  case (Cons c h)
  then show ?case by auto
qed

lemma dot_star_eq_exists:
  "CHR 0x0A \<notin> set h \<Longrightarrow> \<exists>g. dot_star_eq (h @ CHR ''='' # rest) = Some g"
  by (induction h) (auto split: option.splits)


lemma match_here_Some:
  "match_here s = Some g \<longleftrightarrow> (\<exists>post. s = FOD_PATH @ post \<and> dot_star_eq post = Some g)"
  by (auto simp: match_here_def prefix_def)

lemma re_search_sound:
  "re_search t = Some g \<Longrightarrow>
     \<exists>pre post. t = pre @ FOD_PATH @ post \<and> dot_star_eq post = Some g
        \<and> (\<forall>i<length pre. match_here (drop i t) = None)"
proof (induction t)
  case Nil
  then show ?case by (simp add: match_here_def FOD_PATH_def)
next
  case (Cons c cs)
  show ?case
  proof (cases "match_here (c # cs)")
    case (Some g')
    with Cons.prems have "g' = g" by simp
    with Some obtain post where "c # cs = [] @ FOD_PATH @ post" "dot_star_eq post = Some g"
      by (auto simp: match_here_Some)
    then have "c # cs = [] @ FOD_PATH @ post \<and> dot_star_eq post = Some g
        \<and> (\<forall>i<length ([]::string). match_here (drop i (c # cs)) = None)" by simp
    then show ?thesis by blast
  next
    case None
    with Cons.prems have "re_search cs = Some g" by simp
    from Cons.IH[OF this] obtain pre post where
      p: "cs = pre @ FOD_PATH @ post" "dot_star_eq post = Some g"
         "\<forall>i<length pre. match_here (drop i cs) = None" by blast
    have "\<forall>i<length (c # pre). match_here (drop i (c # cs)) = None"
    proof (intro allI impI)
      fix i assume "i < length (c # pre)"
      then show "match_here (drop i (c # cs)) = None"
        using None p(3) by (cases i) auto
    qed
    with p have "c # cs = (c # pre) @ FOD_PATH @ post \<and> dot_star_eq post = Some g
        \<and> (\<forall>i<length (c # pre). match_here (drop i (c # cs)) = None)" by simp
    then show ?thesis by blast
  qed
qed

lemma re_search_complete:
  "dot_star_eq post = Some g \<Longrightarrow> \<forall>i<length pre. match_here (drop i (pre @ FOD_PATH @ post)) = None
     \<Longrightarrow> re_search (pre @ FOD_PATH @ post) = Some g"
proof (induction pre)
  case Nil
  have "match_here (FOD_PATH @ post) = Some g"
    using Nil(1) by (simp add: match_here_Some)
  then show ?case by (cases "FOD_PATH @ post") (auto simp: FOD_PATH_def)
next
  case (Cons c pre)
  from Cons.prems(2) have "match_here (c # pre @ FOD_PATH @ post) = None" by force
  moreover have "\<forall>i<length pre. match_here (drop i (pre @ FOD_PATH @ post)) = None"
  proof (intro allI impI)
    fix i assume "i < length pre"
    then have "Suc i < length (c # pre)" by simp
    with Cons.prems(2) have "match_here (drop (Suc i) ((c # pre) @ FOD_PATH @ post)) = None" by blast
    then show "match_here (drop i (pre @ FOD_PATH @ post)) = None" by simp
  qed
  ultimately show ?case using Cons.IH[OF Cons.prems(1)] by simp
qed

lemma re_search_exists:
  "match_here post \<noteq> None \<Longrightarrow> re_search (pre @ post) \<noteq> None"
proof (induction pre)
  case Nil
  then show ?case by (cases post) auto
next
  case (Cons c pre)
  then show ?case by (auto split: option.splits)
qed



lemma match_here_iff:
  "(\<exists>g. match_here s = Some g) \<longleftrightarrow>
     (\<exists>h post. s = FOD_PATH @ h @ ''='' @ post \<and> CHR 0x0A \<notin> set h)"
proof
  assume "\<exists>g. match_here s = Some g"
  then obtain g post where s: "s = FOD_PATH @ post" and d: "dot_star_eq post = Some g"
    by (auto simp: match_here_Some)
  from dot_star_eq_sound[OF d] obtain h rest where
    "g = h @ ''=''" "post = g @ rest" "CHR 0x0A \<notin> set h" by blast
  with s have "s = FOD_PATH @ h @ ''='' @ rest \<and> CHR 0x0A \<notin> set h" by simp
  then show "\<exists>h post. s = FOD_PATH @ h @ ''='' @ post \<and> CHR 0x0A \<notin> set h" by blast
next
  assume "\<exists>h post. s = FOD_PATH @ h @ ''='' @ post \<and> CHR 0x0A \<notin> set h"
  then obtain h post where s: "s = FOD_PATH @ h @ ''='' @ post" and h: "CHR 0x0A \<notin> set h"
    by blast
  from dot_star_eq_exists[OF h, of post] obtain g where "dot_star_eq (h @ ''='' @ post) = Some g"
    by auto
  with s show "\<exists>g. match_here s = Some g" by (auto simp: match_here_Some)
qed

lemma re_search_iff:
  "(\<exists>g. re_search t = Some g) \<longleftrightarrow>
     (\<exists>pre h post. t = pre @ FOD_PATH @ h @ ''='' @ post \<and> CHR 0x0A \<notin> set h)"
proof
  assume "\<exists>g. re_search t = Some g"
  then obtain g where "re_search t = Some g" by blast
  from re_search_sound[OF this] obtain pre post where
    t: "t = pre @ FOD_PATH @ post" and d: "dot_star_eq post = Some g" by blast
  from dot_star_eq_sound[OF d] obtain h rest where
    "g = h @ ''=''" "post = g @ rest" "CHR 0x0A \<notin> set h" by blast
  with t have "t = pre @ FOD_PATH @ h @ ''='' @ rest \<and> CHR 0x0A \<notin> set h" by simp
  then show "\<exists>pre h post. t = pre @ FOD_PATH @ h @ ''='' @ post \<and> CHR 0x0A \<notin> set h" by blast
next
  assume "\<exists>pre h post. t = pre @ FOD_PATH @ h @ ''='' @ post \<and> CHR 0x0A \<notin> set h"
  then obtain pre h post where t: "t = pre @ (FOD_PATH @ h @ ''='' @ post)" and h: "CHR 0x0A \<notin> set h"
    by auto
  have "\<exists>g. match_here (FOD_PATH @ h @ ''='' @ post) = Some g"
    using h by (subst match_here_iff) blast
  then have "match_here (FOD_PATH @ h @ ''='' @ post) \<noteq> None" by auto
  from re_search_exists[OF this, of pre] t show "\<exists>g. re_search t = Some g" by auto
qed






section \<open>Properties of hash stripping\<close>



lemma dict_get_None_iff: "dict_get d k = None \<longleftrightarrow> k \<notin> set (dict_keys d)"
  by (simp add: dict_get_def dict_keys_def map_of_eq_None_iff)

lemma delitem_Inr:
  "delitem e ''hash'' = Inr e' \<longleftrightarrow>
     (\<exists>d. e = JObj d \<and> ''hash'' \<in> set (dict_keys d) \<and> e' = JObj (filter (\<lambda>(k, v). k \<noteq> ''hash'') d))"
  by (cases e) (auto simp: dict_del_def split: sum.splits if_splits)

lemma delitem_has_hash: "(\<exists>e'. delitem e ''hash'' = Inr e') \<longleftrightarrow> has_hash e"
  by (cases e) (auto simp: dict_del_def has_hash_def split: sum.splits if_splits)

lemma delitem_not_has_hash: "\<not> has_hash (JObj (filter (\<lambda>(k, v). k \<noteq> ''hash'') d))"
  by (auto simp: has_hash_def dict_keys_def)

lemma strip_sources_Inr:
  "strip_sources srcs = Inr srcs' \<longleftrightarrow>
     list_all2 (\<lambda>(sid, e) (sid', e'). sid' = sid \<and>
        (\<exists>d. e = JObj d \<and> ''hash'' \<in> set (dict_keys d)
           \<and> e' = JObj (filter (\<lambda>(k, v). k \<noteq> ''hash'') d))) srcs srcs'"
proof (induction srcs arbitrary: srcs')
  case Nil
  then show ?case by auto
next
  case (Cons a srcs)
  obtain sid e where a: "a = (sid, e)" by (cases a)
  show ?case
  proof (cases srcs')
    case Nil
    then show ?thesis using a by (auto split: sum.splits)
  next
    case (Cons b rest')
    obtain sid' e' where b: "b = (sid', e')" by (cases b)
    show ?thesis
      using Cons.IH[of rest'] delitem_Inr[of e e'] unfolding a Cons b
      by (auto split: sum.splits)
  qed
qed

lemma strip_sources_succeeds:
  "(\<forall>(sid, e)\<in>set srcs. has_hash e) \<Longrightarrow> \<exists>srcs'. strip_sources srcs = Inr srcs'"
proof (induction srcs)
  case Nil
  then show ?case by simp
next
  case (Cons a srcs)
  obtain sid e where a: "a = (sid, e)" by (cases a)
  with Cons.prems have "has_hash e" by simp
  then obtain e' where "delitem e ''hash'' = Inr e'" using delitem_has_hash by blast
  moreover from Cons obtain srcs' where "strip_sources srcs = Inr srcs'" by auto
  ultimately show ?case using a by simp
qed

lemma strip_sources_KeyError:
  "\<forall>(sid, e)\<in>set srcs. \<exists>d. e = JObj d \<Longrightarrow> \<exists>(sid, e)\<in>set srcs. \<not> has_hash e
     \<Longrightarrow> strip_sources srcs = Inl (KeyError ''hash'')"
proof (induction srcs)
  case Nil
  then show ?case by simp
next
  case (Cons a srcs)
  obtain sid e where a: "a = (sid, e)" by (cases a)
  with Cons.prems(1) obtain d where e: "e = JObj d" by auto
  show ?case
  proof (cases "has_hash e")
    case True
    then obtain e' where d: "delitem e ''hash'' = Inr e'" using delitem_has_hash by blast
    from True Cons.prems(2) a have "\<exists>(sid, e)\<in>set srcs. \<not> has_hash e" by auto
    with Cons.IH Cons.prems(1) have "strip_sources srcs = Inl (KeyError ''hash'')" by simp
    with d a show ?thesis by simp
  next
    case False
    then show ?thesis using a e by (simp add: has_hash_def dict_del_def)
  qed
qed

lemma has_hash_JObj: "has_hash (JObj d) \<longleftrightarrow> ''hash'' \<in> set (dict_keys d)"
  by (simp add: has_hash_def)

lemma hash_not_in_filtered: "''hash'' \<notin> set (dict_keys (filter (\<lambda>(k, v). k \<noteq> ''hash'') d))"
  by (auto simp: dict_keys_def)

lemma list_all2_strip_props:
  assumes "list_all2 (\<lambda>(sid, e) (sid', e'). sid' = sid \<and>
        (\<exists>d. e = JObj d \<and> ''hash'' \<in> set (dict_keys d)
           \<and> e' = JObj (filter (\<lambda>(k, v). k \<noteq> ''hash'') d))) srcs srcs'"
  shows "map fst srcs' = map fst srcs" and "\<forall>(sid, e)\<in>set srcs. has_hash e"
    and "\<forall>(sid, e')\<in>set srcs'. \<not> has_hash e'"
  using assms
  by (induction srcs srcs' rule: list_all2_induct)
     (auto simp: has_hash_JObj hash_not_in_filtered)

lemma getitem_Inr: "getitem x k = Inr v \<longleftrightarrow> (\<exists>d. x = JObj d \<and> dict_get d k = Some v)"
  by (cases x) (auto split: option.splits)

lemma items_of_Inr: "items_of x = Inr d \<longleftrightarrow> x = JObj d"
  by (cases x) auto

lemma strip_hashes_from_lock_Inr:
  "strip_hashes_from_lock lock = Inr lock' \<longleftrightarrow>
     (\<exists>d srcs srcs'. lock = JObj d \<and> dict_get d ''sources'' = Some (JObj srcs)
        \<and> strip_sources srcs = Inr srcs'
        \<and> lock' = JObj (dict_set ''sources'' (JObj srcs') d))"
  unfolding strip_hashes_from_lock_def
  by (cases lock) (auto simp: getitem_Inr items_of_Inr split: sum.splits option.splits)

text \<open>
  Claim C9. \<open>strip_hashes_from_lock\<close> is partial. When the entries under \<open>sources\<close>
  are dictionaries and one of them has no key \<open>hash\<close>, it raises \<open>KeyError\<close> instead of
  skipping the entry. It returns exactly when every entry holds a hash; the result then
  has the same source ids in the same order, every entry has lost its key \<open>hash\<close> and
  nothing else, and the other keys of the lock are as before.
\<close>

theorem strip_hashes_partial:
  "(getitem lock ''sources'' = Inr (JObj srcs) \<and> (\<forall>(sid, e)\<in>set srcs. \<exists>d. e = JObj d)
      \<and> (\<exists>(sid, e)\<in>set srcs. \<not> has_hash e)
      \<longrightarrow> strip_hashes_from_lock lock = Inl (KeyError ''hash''))
   \<and> ((\<exists>lock'. strip_hashes_from_lock lock = Inr lock') \<longleftrightarrow>
        (\<exists>srcs. getitem lock ''sources'' = Inr (JObj srcs) \<and> (\<forall>(sid, e)\<in>set srcs. has_hash e)))
   \<and> (\<forall>lock'. strip_hashes_from_lock lock = Inr lock' \<longrightarrow>
        (\<exists>srcs srcs'. getitem lock ''sources'' = Inr (JObj srcs)
           \<and> getitem lock' ''sources'' = Inr (JObj srcs')
           \<and> list_all2 (\<lambda>(sid, e) (sid', e'). sid' = sid \<and>
                (\<exists>d. e = JObj d \<and> ''hash'' \<in> set (dict_keys d)
                   \<and> e' = JObj (filter (\<lambda>(k, v). k \<noteq> ''hash'') d))) srcs srcs'
           \<and> (\<forall>k. k \<noteq> ''sources'' \<longrightarrow> getitem lock' k = getitem lock k)))"
proof (intro conjI allI impI)
  assume a: "getitem lock ''sources'' = Inr (JObj srcs) \<and> (\<forall>(sid, e)\<in>set srcs. \<exists>d. e = JObj d)
      \<and> (\<exists>(sid, e)\<in>set srcs. \<not> has_hash e)"
  then have "strip_sources srcs = Inl (KeyError ''hash'')"
    using strip_sources_KeyError[of srcs] by blast
  with a show "strip_hashes_from_lock lock = Inl (KeyError ''hash'')"
    by (simp add: strip_hashes_from_lock_def)
next
  show "(\<exists>lock'. strip_hashes_from_lock lock = Inr lock') \<longleftrightarrow>
        (\<exists>srcs. getitem lock ''sources'' = Inr (JObj srcs) \<and> (\<forall>(sid, e)\<in>set srcs. has_hash e))"
  proof
    assume "\<exists>lock'. strip_hashes_from_lock lock = Inr lock'"
    then obtain d srcs srcs' where l: "lock = JObj d" "dict_get d ''sources'' = Some (JObj srcs)"
      "strip_sources srcs = Inr srcs'"
      unfolding strip_hashes_from_lock_Inr by blast
    from l(3) have "\<forall>(sid, e)\<in>set srcs. has_hash e"
      unfolding strip_sources_Inr by (rule list_all2_strip_props(2))
    with l show "\<exists>srcs. getitem lock ''sources'' = Inr (JObj srcs) \<and> (\<forall>(sid, e)\<in>set srcs. has_hash e)"
      by auto
  next
    assume "\<exists>srcs. getitem lock ''sources'' = Inr (JObj srcs) \<and> (\<forall>(sid, e)\<in>set srcs. has_hash e)"
    then obtain srcs where s: "getitem lock ''sources'' = Inr (JObj srcs)"
      "\<forall>(sid, e)\<in>set srcs. has_hash e" by blast
    from strip_sources_succeeds[OF s(2)] obtain srcs' where "strip_sources srcs = Inr srcs'" ..
    with s(1) show "\<exists>lock'. strip_hashes_from_lock lock = Inr lock'"
      unfolding strip_hashes_from_lock_Inr getitem_Inr by blast
  qed
next
  fix lock' assume "strip_hashes_from_lock lock = Inr lock'"
  then obtain d srcs srcs' where l: "lock = JObj d" "dict_get d ''sources'' = Some (JObj srcs)"
      "strip_sources srcs = Inr srcs'" "lock' = JObj (dict_set ''sources'' (JObj srcs') d)"
    unfolding strip_hashes_from_lock_Inr by blast
  have "getitem lock ''sources'' = Inr (JObj srcs)" using l by simp
  moreover have "getitem lock' ''sources'' = Inr (JObj srcs')" using l by (simp add: dict_get_set)
  moreover have "\<forall>k. k \<noteq> ''sources'' \<longrightarrow> getitem lock' k = getitem lock k"
    using l by (simp add: dict_get_set)
  ultimately show "\<exists>srcs srcs'. getitem lock ''sources'' = Inr (JObj srcs)
           \<and> getitem lock' ''sources'' = Inr (JObj srcs')
           \<and> list_all2 (\<lambda>(sid, e) (sid', e'). sid' = sid \<and>
                (\<exists>d. e = JObj d \<and> ''hash'' \<in> set (dict_keys d)
                   \<and> e' = JObj (filter (\<lambda>(k, v). k \<noteq> ''hash'') d))) srcs srcs'
           \<and> (\<forall>k. k \<noteq> ''sources'' \<longrightarrow> getitem lock' k = getitem lock k)"
    using l(3) unfolding strip_sources_Inr by blast
qed


text \<open>
  Claim C7. For a lock whose \<open>sources\<close> has N entries, each holding a hash, and whose
  \<open>generic\<close> is a dictionary, stripping and resetting the combined hash (the state written
  at checkpoint A) succeeds; the result has the same N source ids, none of its entries
  holds a hash, and \<open>generic.sourcesCombinedHash\<close> is the empty string.
\<close>

theorem checkpoint_A_has_no_hashes:
  assumes "getitem lock ''sources'' = Inr (JObj srcs)"
    and "\<forall>(sid, e)\<in>set srcs. has_hash e"
    and "getitem lock ''generic'' = Inr (JObj g)"
  shows "\<exists>lockA srcs' g'. strip_and_reset lock = Inr lockA
           \<and> getitem lockA ''sources'' = Inr (JObj srcs')
           \<and> map fst srcs' = map fst srcs \<and> length srcs' = length srcs
           \<and> length (filter (\<lambda>(sid, e). has_hash e) srcs') = 0
           \<and> getitem lockA ''generic'' = Inr (JObj g')
           \<and> dict_get g' ''sourcesCombinedHash'' = Some (JStr [])"
proof -
  from assms(1) obtain d where d: "lock = JObj d" "dict_get d ''sources'' = Some (JObj srcs)"
    unfolding getitem_Inr by blast
  from assms(3) d have g: "dict_get d ''generic'' = Some (JObj g)"
    by (auto split: option.splits)
  from strip_sources_succeeds[OF assms(2)] obtain srcs' where s: "strip_sources srcs = Inr srcs'" ..
  then have la: "list_all2 (\<lambda>(sid, e) (sid', e'). sid' = sid \<and>
        (\<exists>d. e = JObj d \<and> ''hash'' \<in> set (dict_keys d)
           \<and> e' = JObj (filter (\<lambda>(k, v). k \<noteq> ''hash'') d))) srcs srcs'"
    unfolding strip_sources_Inr .
  define d1 where "d1 = dict_set ''sources'' (JObj srcs') d"
  define g' where "g' = dict_set ''sourcesCombinedHash'' (JStr []) g"
  define lockA where "lockA = JObj (dict_set ''generic'' (JObj g') d1)"
  have st: "strip_hashes_from_lock lock = Inr (JObj d1)"
    unfolding strip_hashes_from_lock_Inr d1_def using d s by blast
  have "dict_get d1 ''generic'' = Some (JObj g)" using g by (simp add: d1_def dict_get_set)
  then have "set_combined_hash (JObj d1) [] = Inr lockA"
    by (simp add: set_combined_hash_def lockA_def g'_def)
  with st have 1: "strip_and_reset lock = Inr lockA" by (simp add: strip_and_reset_def)
  have 2: "getitem lockA ''sources'' = Inr (JObj srcs')"
    by (simp add: lockA_def d1_def dict_get_set)
  have 3: "map fst srcs' = map fst srcs" using la by (rule list_all2_strip_props(1))
  then have 4: "length srcs' = length srcs" using map_eq_imp_length_eq by blast
  have "\<forall>(sid, e')\<in>set srcs'. \<not> has_hash e'" using la by (rule list_all2_strip_props(3))
  then have "filter (\<lambda>(sid, e). has_hash e) srcs' = []" by (auto simp: filter_empty_conv)
  then have 5: "length (filter (\<lambda>(sid, e). has_hash e) srcs') = 0" by simp
  have 6: "getitem lockA ''generic'' = Inr (JObj g')" by (simp add: lockA_def dict_get_set)
  have 7: "dict_get g' ''sourcesCombinedHash'' = Some (JStr [])" by (simp add: g'_def dict_get_set)
  from 1 2 3 4 5 6 7 show ?thesis by blast
qed

lemma strip_and_reset_demo: "strip_and_reset lock_demo = Inr lock_demo_A"
  by (simp add: strip_and_reset_def strip_hashes_from_lock_def set_combined_hash_def
      lock_demo_def lock_demo_A_def dict_get_def dict_del_def dict_keys_def)

theorem checkpoint_A_has_no_hashes_witness:
  "\<exists>lockA srcs' g'. strip_and_reset lock_demo = Inr lockA
           \<and> getitem lockA ''sources'' = Inr (JObj srcs')
           \<and> map fst srcs' = [''a'', ''b''] \<and> length srcs' = 2
           \<and> length (filter (\<lambda>(sid, e). has_hash e) srcs') = 0
           \<and> getitem lockA ''generic'' = Inr (JObj g')
           \<and> dict_get g' ''sourcesCombinedHash'' = Some (JStr [])"
proof -
  let ?srcs = "[(''a'', JObj [(''url'', JStr ''u1''), (''hash'', JStr ''h1'')]),
                (''b'', JObj [(''hash'', JStr ''h2''), (''type'', JStr ''git'')])]"
  have 1: "getitem lock_demo ''sources'' = Inr (JObj ?srcs)"
    by (simp add: lock_demo_def dict_get_def)
  have 2: "\<forall>(sid, e)\<in>set ?srcs. has_hash e"
    by (simp add: has_hash_def dict_keys_def)
  have 3: "getitem lock_demo ''generic'' = Inr (JObj [(''sourcesCombinedHash'', JStr [])])"
    by (simp add: lock_demo_def dict_get_def)
  from checkpoint_A_has_no_hashes[OF 1 2 3] show ?thesis by (simp add: numeral_2_eq_2)
qed

theorem strip_hashes_partial_witness:
  "strip_hashes_from_lock lock_broken = Inl (KeyError ''hash'')
   \<and> (\<exists>lock'. strip_hashes_from_lock lock_demo = Inr lock' \<and> getitem lock' ''generic'' = getitem lock_demo ''generic'')"
proof -
  have "strip_hashes_from_lock lock_broken = Inl (KeyError ''hash'')"
    using strip_hashes_partial[of lock_broken
      "[(''a'', JObj [(''hash'', JStr ''h1'')]), (''b'', JObj [(''type'', JStr ''git'')])]"]
    by (simp add: lock_broken_def dict_get_def has_hash_def dict_keys_def)
  moreover have "\<exists>lock'. strip_hashes_from_lock lock_demo = Inr lock'"
    using strip_hashes_partial[of lock_demo "[]"]
    by (simp add: lock_demo_def dict_get_def has_hash_def dict_keys_def)
  then obtain lock' where l: "strip_hashes_from_lock lock_demo = Inr lock'" ..
  then have "getitem lock' ''generic'' = getitem lock_demo ''generic''"
    using strip_hashes_partial[of lock_demo "[]"] by auto
  ultimately show ?thesis using l by blast
qed

section \<open>Properties of validation and of the argument merge\<close>


lemma check_inputs_Inr: "check_inputs f ps = Inr u \<longleftrightarrow> (\<forall>p\<in>set ps. path_exists f p)"
  by (induction ps) auto

lemma check_inputs_Inl:
  "check_inputs f ps = Inl e \<Longrightarrow>
     \<exists>p\<in>set ps. \<not> path_exists f p
        \<and> e = Exception (''Input path '' @ [CHR 0x27] @ p @ [CHR 0x27] @ '' does not exist'')"
  by (induction ps) (auto split: if_splits)

lemma isfile_not_isdir: "path_isfile f p \<Longrightarrow> \<not> path_isdir f p"
  by (auto simp: path_isfile_def path_isdir_def split: option.splits node.splits)

lemma isfile_exists: "path_isfile f p \<Longrightarrow> path_exists f p"
  by (auto simp: path_isfile_def path_exists_def split: option.splits node.splits)

lemma isdir_exists: "path_isdir f p \<Longrightarrow> path_exists f p"
  by (auto simp: path_isdir_def path_exists_def split: option.splits node.splits)

text \<open>
  Claim C4. Validation fails exactly when some listed path does not exist, with the
  exception naming the first such path. Otherwise it returns the listed paths that are
  files and the listed paths that are directories, each in the order of the input (a
  filter of the input list); no path is in both, and the step leaves the state as it was.
\<close>

theorem validator_partitions_inputs:
  "((\<exists>e. validate_inputs ps f = Inl e) \<longleftrightarrow> (\<exists>p\<in>set ps. \<not> path_exists f p))
   \<and> (\<forall>e. validate_inputs ps f = Inl e \<longrightarrow>
         (\<exists>p\<in>set ps. \<not> path_exists f p
            \<and> e = Exception (''Input path '' @ [CHR 0x27] @ p @ [CHR 0x27] @ '' does not exist'')))
   \<and> ((\<forall>p\<in>set ps. path_exists f p) \<longrightarrow>
         validate_inputs ps f = Inr (filter (path_isfile f) ps, filter (path_isdir f) ps))
   \<and> subseq (filter (path_isfile f) ps) ps
   \<and> subseq (filter (path_isdir f) ps) ps
   \<and> set (filter (path_isfile f) ps) \<inter> set (filter (path_isdir f) ps) = {}
   \<and> snd (gets_e (validate_inputs ps) w) = w"
proof (intro conjI allI impI)
  show "(\<exists>e. validate_inputs ps f = Inl e) \<longleftrightarrow> (\<exists>p\<in>set ps. \<not> path_exists f p)"
  proof (cases "check_inputs f ps")
    case (Inl e)
    from check_inputs_Inl[OF this] Inl show ?thesis by (auto simp: validate_inputs_def)
  next
    case (Inr u)
    then show ?thesis using check_inputs_Inr[of f ps u] by (auto simp: validate_inputs_def)
  qed
next
  fix e assume "validate_inputs ps f = Inl e"
  then have "check_inputs f ps = Inl e" by (auto simp: validate_inputs_def split: sum.splits)
  then show "\<exists>p\<in>set ps. \<not> path_exists f p
            \<and> e = Exception (''Input path '' @ [CHR 0x27] @ p @ [CHR 0x27] @ '' does not exist'')"
    by (rule check_inputs_Inl)
next
  assume "\<forall>p\<in>set ps. path_exists f p"
  then have "check_inputs f ps = Inr ()" by (simp add: check_inputs_Inr)
  then show "validate_inputs ps f = Inr (filter (path_isfile f) ps, filter (path_isdir f) ps)"
    by (simp add: validate_inputs_def)
next
  show "set (filter (path_isfile f) ps) \<inter> set (filter (path_isdir f) ps) = {}"
    using isfile_not_isdir by auto
next
  show "snd (gets_e (validate_inputs ps) w) = w" by (simp add: gets_e_def)
qed simp_all

lemma stat_demo:
  "stat fs_demo ''pkg.json'' = Some (File ''{}'')"
  "stat fs_demo ''src'' = Some Dir"
  "stat fs_demo ''link'' = Some (File ''{}'')"
  "stat fs_demo ''gone'' = None"
  by (simp_all add: stat_def fs_demo_def eval_nat_numeral)

theorem validator_partitions_inputs_witness:
  "validate_inputs [''src'', ''pkg.json'', ''link''] fs_demo = Inr ([''pkg.json'', ''link''], [''src''])
   \<and> validate_inputs [''src'', ''gone'', ''pkg.json''] fs_demo
       = Inl (Exception (''Input path '' @ [CHR 0x27] @ ''gone'' @ [CHR 0x27] @ '' does not exist''))"
proof -
  have a: "\<forall>p\<in>set [''src'', ''pkg.json'', ''link'']. path_exists fs_demo p"
    by (simp add: path_exists_def stat_demo)
  have "validate_inputs [''src'', ''pkg.json'', ''link''] fs_demo
          = Inr (filter (path_isfile fs_demo) [''src'', ''pkg.json'', ''link''],
                 filter (path_isdir fs_demo) [''src'', ''pkg.json'', ''link''])"
    using validator_partitions_inputs[of "[''src'', ''pkg.json'', ''link'']" fs_demo] a by blast
  then have 1: "validate_inputs [''src'', ''pkg.json'', ''link''] fs_demo = Inr ([''pkg.json'', ''link''], [''src''])"
    by (simp add: path_isfile_def path_isdir_def stat_demo)
  have b: "\<exists>p\<in>set [''src'', ''gone'', ''pkg.json'']. \<not> path_exists fs_demo p"
    by (simp add: path_exists_def stat_demo)
  then obtain e where e: "validate_inputs [''src'', ''gone'', ''pkg.json''] fs_demo = Inl e"
    using validator_partitions_inputs[of "[''src'', ''gone'', ''pkg.json'']" fs_demo] by blast
  then have "\<exists>p\<in>set [''src'', ''gone'', ''pkg.json'']. \<not> path_exists fs_demo p
            \<and> e = Exception (''Input path '' @ [CHR 0x27] @ p @ [CHR 0x27] @ '' does not exist'')"
    using validator_partitions_inputs[of "[''src'', ''gone'', ''pkg.json'']" fs_demo] by blast
  then have "e = Exception (''Input path '' @ [CHR 0x27] @ ''gone'' @ [CHR 0x27] @ '' does not exist'')"
    by (simp add: path_exists_def stat_demo)
  with 1 e show ?thesis by simp
qed






lemma arg_prefix: "prefix ''arg_'' k \<and> drop 4 k = n \<longleftrightarrow> k = ''arg_'' @ n"
  by (auto simp: prefix_def)





section \<open>Running the steps\<close>


lemma bind_apply:
  "bind m k w = (case m w of (Inl e, w') \<Rightarrow> (Inl e, w') | (Inr x, w') \<Rightarrow> k x w')"
  by (simp add: bind_def)

lemma bind_Inr_run: "m w = (Inr x, w1) \<Longrightarrow> bind m k w = k x w1"
  by (simp add: bind_def)

lemma bind_Inl_run: "m w = (Inl e, w1) \<Longrightarrow> bind m k w = (Inl e, w1)"
  by (simp add: bind_def)

lemma prim_apply:
  "ret x w = (Inr x, w)"
  "raise e w = (Inl e, w)"
  "lift r w = (r, w)"
  "gets g w = (Inr (g (fsys w)), w)"
  "gets_e h w = (h (fsys w), w)"
  "print_out s w = (Inr (), w\<lparr>out := out w @ [s]\<rparr>)"
  "print_err s w = (Inr (), w\<lparr>err := err w @ [s]\<rparr>)"
  by (simp_all add: ret_def raise_def lift_def gets_def gets_e_def print_out_def print_err_def)

section \<open>Properties of the hash extraction\<close>

lemma read_output_hash_Some:
  "stderr p = Utf8 t \<Longrightarrow> re_search t = Some g \<Longrightarrow> read_output_hash p w = (Inr g, w)"
  by (simp add: read_output_hash_def bind_apply prim_apply)

lemma read_output_hash_None:
  "stderr p = Utf8 t \<Longrightarrow> stdout p = Utf8 ot \<Longrightarrow> re_search t = None \<Longrightarrow>
     read_output_hash p w
       = (Inl (Exception ''Could not find FOD hash in FOD log''), w\<lparr>out := out w @ [t, ot]\<rparr>)"
  by (simp add: read_output_hash_def bind_apply prim_apply)

lemma first_token_match:
  assumes "\<forall>i<length pre. \<not> prefix FOD_PATH (drop i (pre @ FOD_PATH @ h @ ''='' @ post))"
    and "CHR 0x0A \<notin> set h"
    and "CHR ''='' \<notin> set (takeWhile (\<lambda>c. c \<noteq> CHR 0x0A) post)"
  shows "re_search (pre @ FOD_PATH @ h @ ''='' @ post) = Some (h @ ''='')"
proof -
  have "dot_star_eq (h @ ''='' @ post) = Some (h @ ''='')"
    using dot_star_eq_complete[OF assms(2,3)] by simp
  moreover have "\<forall>i<length pre. match_here (drop i (pre @ FOD_PATH @ (h @ ''='' @ post))) = None"
    using assms(1) unfolding match_here_def by auto
  ultimately show ?thesis using re_search_complete[of "h @ ''='' @ post" "h @ ''=''" pre] by simp
qed

lemma token_split:
  "pre @ ''FOD_PATH=abc123=='' @ post = pre @ FOD_PATH @ ''abc123='' @ ''='' @ post"
  by (simp add: FOD_PATH_def)

lemma prefix_lit: "prefix ''FOD_PATH='' s = prefix FOD_PATH s"
  by (simp only: FOD_PATH_def)

lemma re_search_group:
  assumes "re_search t = Some g"
  shows "\<exists>pre post. t = pre @ ''FOD_PATH='' @ g @ post
                \<and> (\<forall>i<length pre. match_here (drop i t) = None)"
proof -
  from re_search_sound[OF assms] obtain pre post where
    t: "t = pre @ FOD_PATH @ post" and d: "dot_star_eq post = Some g"
    and first: "\<forall>i<length pre. match_here (drop i t) = None" by blast
  from dot_star_eq_sound[OF d] obtain rest where "post = g @ rest" by blast
  with t have "t = pre @ ''FOD_PATH='' @ g @ rest" by (simp only: FOD_PATH_def)
  with first show ?thesis by blast
qed

text \<open>
  Claim C2, as amended. When the captured diagnostics contain the token
  \<open>FOD_PATH=abc123==\<close>, no \<open>FOD_PATH=\<close> starts before it and no \<open>=\<close> follows it on
  its line, the extraction returns \<open>abc123==\<close>. When no \<open>FOD_PATH=\<close> of the text
  is followed on its line by a \<open>=\<close>, the extraction prints both captured streams and
  raises the exception "Could not find FOD hash in FOD log". In general the value
  returned is group 1 of the leftmost match.
\<close>

theorem hash_extraction_first_match:
  "(stderr p = Utf8 (pre @ ''FOD_PATH=abc123=='' @ post)
      \<and> (\<forall>i<length pre. \<not> prefix ''FOD_PATH='' (drop i (pre @ ''FOD_PATH=abc123=='' @ post)))
      \<and> CHR ''='' \<notin> set (takeWhile (\<lambda>c. c \<noteq> CHR 0x0A) post)
      \<longrightarrow> read_output_hash p w = (Inr ''abc123=='', w))
   \<and> (stderr p = Utf8 t \<and> stdout p = Utf8 ot
      \<and> \<not> (\<exists>pre h post. t = pre @ ''FOD_PATH='' @ h @ ''='' @ post \<and> CHR 0x0A \<notin> set h)
      \<longrightarrow> read_output_hash p w
            = (Inl (Exception ''Could not find FOD hash in FOD log''), w\<lparr>out := out w @ [t, ot]\<rparr>))
   \<and> (stderr p = Utf8 t \<and> re_search t = Some g
      \<longrightarrow> read_output_hash p w = (Inr g, w)
          \<and> (\<exists>pre post. t = pre @ ''FOD_PATH='' @ g @ post
                \<and> (\<forall>i<length pre. match_here (drop i t) = None)))"
proof (intro conjI impI)
  assume a: "stderr p = Utf8 (pre @ ''FOD_PATH=abc123=='' @ post)
      \<and> (\<forall>i<length pre. \<not> prefix ''FOD_PATH='' (drop i (pre @ ''FOD_PATH=abc123=='' @ post)))
      \<and> CHR ''='' \<notin> set (takeWhile (\<lambda>c. c \<noteq> CHR 0x0A) post)"
  then have 1: "\<forall>i<length pre. \<not> prefix FOD_PATH (drop i (pre @ FOD_PATH @ ''abc123='' @ ''='' @ post))"
    unfolding prefix_lit token_split by blast
  have 2: "CHR 0x0A \<notin> set ''abc123=''" by simp
  from a have 3: "CHR ''='' \<notin> set (takeWhile (\<lambda>c. c \<noteq> CHR 0x0A) post)" by blast
  have "re_search (pre @ FOD_PATH @ ''abc123='' @ ''='' @ post) = Some (''abc123='' @ ''='')"
    using 1 2 3 by (rule first_token_match)
  then have "re_search (pre @ ''FOD_PATH=abc123=='' @ post) = Some ''abc123==''"
    unfolding token_split by simp
  with a show "read_output_hash p w = (Inr ''abc123=='', w)"
    using read_output_hash_Some by blast
next
  assume a: "stderr p = Utf8 t \<and> stdout p = Utf8 ot
      \<and> \<not> (\<exists>pre h post. t = pre @ ''FOD_PATH='' @ h @ ''='' @ post \<and> CHR 0x0A \<notin> set h)"
  then have "\<not> (\<exists>g. re_search t = Some g)"
    unfolding re_search_iff FOD_PATH_def by blast
  then have "re_search t = None" by (cases "re_search t") auto
  with a show "read_output_hash p w
            = (Inl (Exception ''Could not find FOD hash in FOD log''), w\<lparr>out := out w @ [t, ot]\<rparr>)"
    using read_output_hash_None by blast
next
  assume a: "stderr p = Utf8 t \<and> re_search t = Some g"
  then show "read_output_hash p w = (Inr g, w)" using read_output_hash_Some by blast
next
  assume a: "stderr p = Utf8 t \<and> re_search t = Some g"
  then have "re_search t = Some g" by simp
  then show "\<exists>pre post. t = pre @ ''FOD_PATH='' @ g @ post
                \<and> (\<forall>i<length pre. match_here (drop i t) = None)"
    by (rule re_search_group)
qed


theorem hash_extraction_first_match_witness:
  "read_output_hash proc_hit world_demo = (Inr ''abc123=='', world_demo)
   \<and> read_output_hash proc_miss world_demo
       = (Inl (Exception ''Could not find FOD hash in FOD log''),
          world_demo\<lparr>out := [''error: FOD_PATH=abc123'', ''building'']\<rparr>)"
proof -
  have 1: "stderr proc_hit = Utf8 (''e: '' @ ''FOD_PATH=abc123=='' @ '' wanted'')"
    by (simp add: proc_hit_def)
  have 2: "\<forall>i<length ''e: ''. \<not> prefix ''FOD_PATH='' (drop i (''e: '' @ ''FOD_PATH=abc123=='' @ '' wanted''))"
    by (simp add: less_Suc_eq eval_nat_numeral)
  have 3: "CHR ''='' \<notin> set (takeWhile (\<lambda>c. c \<noteq> CHR 0x0A) '' wanted'')" by simp
  have a: "read_output_hash proc_hit world_demo = (Inr ''abc123=='', world_demo)"
    using hash_extraction_first_match[of proc_hit "''e: ''" "'' wanted''" world_demo] 1 2 3 by blast
  have 4: "stderr proc_miss = Utf8 ''error: FOD_PATH=abc123'' \<and> stdout proc_miss = Utf8 ''building''"
    by (simp add: proc_miss_def)
  have "re_search ''error: FOD_PATH=abc123'' = None"
    by (simp add: match_here_def FOD_PATH_def)
  then have "\<not> (\<exists>g. re_search ''error: FOD_PATH=abc123'' = Some g)" by simp
  then have 5: "\<not> (\<exists>pre h post. ''error: FOD_PATH=abc123'' = pre @ ''FOD_PATH='' @ h @ ''='' @ post \<and> CHR 0x0A \<notin> set h)"
    unfolding re_search_iff FOD_PATH_def by blast
  have b: "read_output_hash proc_miss world_demo
       = (Inl (Exception ''Could not find FOD hash in FOD log''),
          world_demo\<lparr>out := out world_demo @ [''error: FOD_PATH=abc123'', ''building'']\<rparr>)"
    using hash_extraction_first_match[of proc_miss _ _ world_demo "''error: FOD_PATH=abc123''" "''building''"] 4 5
    by blast
  from a b show ?thesis by (simp add: world_demo_def)
qed

text \<open>
  Claim C2 as stated fails: a text can contain the token \<open>FOD_PATH=abc123==\<close> and
  have another value extracted, because the group runs to the last \<open>=\<close> of the line.
\<close>

theorem token_not_always_extracted:
  "re_search (''error: '' @ ''FOD_PATH=abc123=='' @ '' (rc=1)'') = Some ''abc123== (rc=''
   \<and> re_search (''error: '' @ ''FOD_PATH=abc123=='' @ '' (rc=1)'') \<noteq> Some ''abc123==''"
  by (simp add: match_here_def FOD_PATH_def)

section \<open>The stages of a run\<close>

text \<open>
  What each stage of \<open>translate\<close> leaves behind, whatever way it ends: its result,
  the subprocess calls it made and the file system.
\<close>


lemma bindE:
  assumes "bind m k w = (r, w')"
  obtains (fail) e where "m w = (Inl e, w')" "r = Inl e"
        | (ok) x w1 where "m w = (Inr x, w1)" "k x w1 = (r, w')"
  using assms by (auto simp: bind_def split: prod.splits sum.splits)

lemma exit_code_1: "exit_code (Inl e) = 1 \<longleftrightarrow> (\<forall>n. e = SystemExit n \<longrightarrow> n = 1)"
  by (cases e) auto

lemma getitem_fatal: "getitem x k = Inl e \<Longrightarrow> exit_code (Inl e) = 1"
  by (cases x) (auto split: option.splits)

lemma with_defaults_fatal: "with_defaults x d = Inl e \<Longrightarrow> exit_code (Inl e) = 1"
  by (cases x) auto

lemma parsed_result_fatal: "parsed_result x = Inl e \<Longrightarrow> exit_code (Inl e) = 1"
  by (cases x) auto

lemma loads_bytes_fatal: "loads_bytes E b = Inl e \<Longrightarrow> exit_code (Inl e) = 1"
  by (auto simp: loads_bytes_def dest: parsed_result_fatal)

lemma start_exn_fatal: "exit_code (Inl (start_exn se)) = 1"
  by (cases se) auto

lemma decode_fatal: "decode b = Inl e \<Longrightarrow> exit_code (Inl e) = 1"
  by (cases b) auto

lemma dump_tmp_run:
  "dump_tmp E tmp x w = (r, w') \<longleftrightarrow>
     r = Inr () \<and> w' = w\<lparr>fsys := (fsys w)(tmp \<mapsto> File (json_dumps E x))\<rparr>"
  by (auto simp: dump_tmp_def)

lemma run_run:
  "run E c w = (r, w') \<longleftrightarrow>
     (case sp_start E c (fsys w) of
        Some se \<Rightarrow> r = Inl (start_exn se) \<and> w' = w\<lparr>calls := calls w @ [(c, fsys w)]\<rparr>
      | None \<Rightarrow> r = Inr (fst (sp_run E c (fsys w)))
          \<and> w' = w\<lparr>fsys := snd (sp_run E c (fsys w)), calls := calls w @ [(c, fsys w)]\<rparr>)"
  by (auto simp: run_def split: prod.splits option.splits)

lemma run_props:
  assumes "run E c w = (r, w')"
  shows "calls w' = calls w @ [(c, fsys w)]
    \<and> (\<forall>e. r = Inl e \<longrightarrow> exit_code (Inl e) = 1 \<and> (\<exists>se. sp_start E c (fsys w) = Some se \<and> e = start_exn se) \<and> fsys w' = fsys w)
    \<and> (\<forall>p. r = Inr p \<longrightarrow> sp_start E c (fsys w) = None \<and> p = fst (sp_run E c (fsys w))
           \<and> fsys w' = snd (sp_run E c (fsys w)))"
  using assms by (auto simp: run_run start_exn_fatal split: option.splits)

lemma fail_if_nonzero_run:
  assumes "fail_if_nonzero p msg w = (r, w')"
  shows "fsys w' = fsys w \<and> calls w' = calls w
    \<and> (r = Inr () \<longleftrightarrow> returncode p = 0)
    \<and> (\<forall>e. r = Inl e \<longrightarrow> exit_code (Inl e) = 1)"
  using assms
  by (auto simp: fail_if_nonzero_def prim_apply bind_apply split: if_splits sum.splits bytes.splits
      dest: decode_fatal)

lemma select_translator_run:
  assumes "select_translator E ti tmp w = (r, w')"
  shows "calls w' = calls w @ [(NixEval (dream2nixSrc E) tmp, (fsys w)(tmp \<mapsto> File (json_dumps E (JObj ti))))]
    \<and> (\<forall>e. r = Inl e \<longrightarrow> exit_code (Inl e) = 1)
    \<and> (\<forall>x. r = Inr x \<longrightarrow>
           sp_start E (NixEval (dream2nixSrc E) tmp) ((fsys w)(tmp \<mapsto> File (json_dumps E (JObj ti)))) = None
         \<and> returncode (fst (sp_run E (NixEval (dream2nixSrc E) tmp) ((fsys w)(tmp \<mapsto> File (json_dumps E (JObj ti)))))) = 0
         \<and> (\<forall>p. p \<noteq> tmp \<longrightarrow> fsys w' p
              = snd (sp_run E (NixEval (dream2nixSrc E) tmp) ((fsys w)(tmp \<mapsto> File (json_dumps E (JObj ti))))) p))"
  using assms unfolding select_translator_def
  by (elim bindE;
      auto simp: prim_apply dump_tmp_run
        dest!: run_props fail_if_nonzero_run getitem_fatal with_defaults_fatal loads_bytes_fatal)

lemma build_translator_run:
  assumes "build_translator E s t n w = (r, w')"
  shows "calls w' = calls w @ [(NixBuildTranslator (dream2nixSrc E) s t n, fsys w)]
    \<and> (\<forall>e. r = Inl e \<longrightarrow> exit_code (Inl e) = 1)
    \<and> (r = Inr () \<longrightarrow>
          sp_start E (NixBuildTranslator (dream2nixSrc E) s t n) (fsys w) = None
        \<and> returncode (fst (sp_run E (NixBuildTranslator (dream2nixSrc E) s t n) (fsys w))) = 0
        \<and> fsys w' = snd (sp_run E (NixBuildTranslator (dream2nixSrc E) s t n) (fsys w)))"
  using assms unfolding build_translator_def
  by (elim bindE; auto dest!: run_props fail_if_nonzero_run)

lemma os_remove_fatal: "os_remove p f = Inl e \<Longrightarrow> exit_code (Inl e) = 1"
  by (auto simp: os_remove_def split: option.splits node.splits)

lemma os_remove_error: "os_remove p f = Inl e \<Longrightarrow> e = FileNotFoundError \<or> e = IsADirectoryError"
  by (auto simp: os_remove_def split: option.splits node.splits)

lemma start_exn_error: "start_exn se = FileNotFoundError \<or> start_exn se = PermissionError"
  by (cases se) auto

lemma os_remove_Inr: "os_remove p f = Inr f' \<Longrightarrow> f' = f(p := None)"
  by (auto simp: os_remove_def split: option.splits node.splits)

lemma fs_op_run:
  "fs_op g w = (r, w') \<longleftrightarrow>
     (case g (fsys w) of Inl e \<Rightarrow> r = Inl e \<and> w' = w | Inr f' \<Rightarrow> r = Inr () \<and> w' = w\<lparr>fsys := f'\<rparr>)"
  by (auto simp: fs_op_def split: sum.splits)

lemma execute_translator_run:
  assumes "execute_translator E tmp w = (r, w')"
  shows "(\<exists>e. r = Inl e \<and> exit_code (Inl e) = 1 \<and> calls w' = calls w \<and> fsys w' = fsys w)
       \<or> (calls w' = calls w @ [(Translate (realpath E (fsys w) ''translator'') tmp (argv E),
                                     (fsys w)(''translator'' := None))]
           \<and> (case sp_start E (Translate (realpath E (fsys w) ''translator'') tmp (argv E))
                      ((fsys w)(''translator'' := None)) of
                 Some se \<Rightarrow> r = Inl (start_exn se) \<and> fsys w' = (fsys w)(''translator'' := None)
               | None \<Rightarrow> r = Inr ()
                   \<and> fsys w' = snd (sp_run E (Translate (realpath E (fsys w) ''translator'') tmp (argv E))
                                 ((fsys w)(''translator'' := None)))))"
  using assms unfolding execute_translator_def
  by (elim bindE;
      auto simp: prim_apply run_run fs_op_run split: sum.splits option.splits
        dest: os_remove_fatal os_remove_Inr)

lemma select_build_run_run:
  assumes "select_build_run E ti tmp w = (r, w')"
  obtains
    (eval_stopped) e f0 where
      "r = Inl e \<and> exit_code (Inl e) = 1
         \<and> calls w' = calls w @ [(NixEval (dream2nixSrc E) tmp, f0)]"
  | (build_stopped) e f0 cb f1 where
      "r = Inl e \<and> exit_code (Inl e) = 1 \<and> is_build cb
            \<and> calls w' = calls w @ [(NixEval (dream2nixSrc E) tmp, f0), (cb, f1)]
            \<and> sp_start E (NixEval (dream2nixSrc E) tmp) f0 = None
            \<and> returncode (fst (sp_run E (NixEval (dream2nixSrc E) tmp) f0)) = 0"
  | (translated) f0 cb f1 tp f2 where
      "is_build cb
            \<and> calls w' = calls w @ [(NixEval (dream2nixSrc E) tmp, f0), (cb, f1),
                                      (Translate tp tmp (argv E), f2)]
            \<and> sp_start E (NixEval (dream2nixSrc E) tmp) f0 = None
            \<and> returncode (fst (sp_run E (NixEval (dream2nixSrc E) tmp) f0)) = 0
            \<and> sp_start E cb f1 = None
            \<and> returncode (fst (sp_run E cb f1)) = 0
            \<and> (\<forall>p. p \<noteq> tmp \<longrightarrow> f0 p = fsys w p)
            \<and> (\<forall>p. p \<noteq> tmp \<longrightarrow> f1 p = snd (sp_run E (NixEval (dream2nixSrc E) tmp) f0) p)
            \<and> (\<forall>p. p \<noteq> ''translator'' \<longrightarrow> f2 p = snd (sp_run E cb f1) p)
            \<and> f2 ''translator'' = None
            \<and> (case sp_start E (Translate tp tmp (argv E)) f2 of
                  Some se \<Rightarrow> r = Inl (start_exn se) \<and> fsys w' = f2
                | None \<Rightarrow> r = Inr () \<and> fsys w' = snd (sp_run E (Translate tp tmp (argv E)) f2))"
proof -
  let ?ce = "NixEval (dream2nixSrc E) tmp"
  let ?f0 = "(fsys w)(tmp \<mapsto> File (json_dumps E (JObj ti)))"
  from assms[unfolded select_build_run_def]
  show thesis
  proof (cases rule: bindE)
    case (fail e)
    from select_translator_run[OF fail(1)] fail(2)
    have "r = Inl e \<and> exit_code (Inl e) = 1 \<and> calls w' = calls w @ [(?ce, ?f0)]" by simp
    then show ?thesis by (rule eval_stopped)
  next
    case (ok x w1)
    obtain s t n where x: "x = (s, t, n)" by (cases x)
    let ?cb = "NixBuildTranslator (dream2nixSrc E) s t n"
    from select_translator_run[OF ok(1)] x
    have st: "calls w1 = calls w @ [(?ce, ?f0)]"
      "\<forall>p. p \<noteq> tmp \<longrightarrow> fsys w1 p = snd (sp_run E ?ce ?f0) p"
      "sp_start E ?ce ?f0 = None"
      "returncode (fst (sp_run E ?ce ?f0)) = 0" by auto
    from ok(2) have "bind (build_translator E s t n) (\<lambda>u. execute_translator E tmp) w1 = (r, w')"
      by (simp add: x)
    then show thesis
    proof (cases rule: bindE)
      case (fail e)
      from build_translator_run[OF fail(1)] fail(2) st
      have "r = Inl e \<and> exit_code (Inl e) = 1 \<and> is_build ?cb
            \<and> calls w' = calls w @ [(?ce, ?f0), (?cb, fsys w1)]
            \<and> sp_start E ?ce ?f0 = None
            \<and> returncode (fst (sp_run E ?ce ?f0)) = 0" by simp
      then show ?thesis by (rule build_stopped)
    next
      case (ok u w2)
      from build_translator_run[OF ok(1)]
      have bt: "calls w2 = calls w1 @ [(?cb, fsys w1)]"
        "fsys w2 = snd (sp_run E ?cb (fsys w1))"
        "sp_start E ?cb (fsys w1) = None"
        "returncode (fst (sp_run E ?cb (fsys w1))) = 0" by simp_all
      let ?tp = "realpath E (fsys w2) ''translator''"
      let ?f2 = "(fsys w2)(''translator'' := None)"
      from execute_translator_run[OF ok(2)] show thesis
      proof
        assume "\<exists>e. r = Inl e \<and> exit_code (Inl e) = 1 \<and> calls w' = calls w2 \<and> fsys w' = fsys w2"
        then obtain e where "r = Inl e" "exit_code (Inl e) = 1" "calls w' = calls w2" by blast
        with bt st
        have "r = Inl e \<and> exit_code (Inl e) = 1 \<and> is_build ?cb
            \<and> calls w' = calls w @ [(?ce, ?f0), (?cb, fsys w1)]
            \<and> sp_start E ?ce ?f0 = None
            \<and> returncode (fst (sp_run E ?ce ?f0)) = 0" by simp
        then show ?thesis by (rule build_stopped)
      next
        assume "calls w' = calls w2 @ [(Translate ?tp tmp (argv E), ?f2)]
           \<and> (case sp_start E (Translate ?tp tmp (argv E)) ?f2 of
                 Some se \<Rightarrow> r = Inl (start_exn se) \<and> fsys w' = ?f2
               | None \<Rightarrow> r = Inr () \<and> fsys w' = snd (sp_run E (Translate ?tp tmp (argv E)) ?f2))"
        with bt st
        have "is_build ?cb
            \<and> calls w' = calls w @ [(?ce, ?f0), (?cb, fsys w1), (Translate ?tp tmp (argv E), ?f2)]
            \<and> sp_start E ?ce ?f0 = None
            \<and> returncode (fst (sp_run E ?ce ?f0)) = 0
            \<and> sp_start E ?cb (fsys w1) = None
            \<and> returncode (fst (sp_run E ?cb (fsys w1))) = 0
            \<and> (\<forall>p. p \<noteq> tmp \<longrightarrow> ?f0 p = fsys w p)
            \<and> (\<forall>p. p \<noteq> tmp \<longrightarrow> fsys w1 p = snd (sp_run E ?ce ?f0) p)
            \<and> (\<forall>p. p \<noteq> ''translator'' \<longrightarrow> ?f2 p = snd (sp_run E ?cb (fsys w1)) p)
            \<and> ?f2 ''translator'' = None
            \<and> (case sp_start E (Translate ?tp tmp (argv E)) ?f2 of
                  Some se \<Rightarrow> r = Inl (start_exn se) \<and> fsys w' = ?f2
                | None \<Rightarrow> r = Inr () \<and> fsys w' = snd (sp_run E (Translate ?tp tmp (argv E)) ?f2))" by simp
        then show ?thesis by (rule translated)
      qed
    qed
  qed
qed


lemma validate_inputs_fatal: "validate_inputs ps f = Inl e \<Longrightarrow> exit_code (Inl e) = 1"
  by (auto simp: validate_inputs_def split: sum.splits dest!: check_inputs_Inl)

lemma remove_output_run:
  assumes "remove_output p w = (r, w')"
  shows "(\<exists>e. r = Inl e \<and> exit_code (Inl e) = 1 \<and> w' = w)
       \<or> (r = Inr () \<and> calls w' = calls w
            \<and> fsys w' = (if path_exists (fsys w) p then (fsys w)(p := None) else fsys w))"
  using assms unfolding remove_output_def
  by (elim bindE;
      auto simp: prim_apply fs_op_run split: if_splits sum.splits
        dest: os_remove_fatal os_remove_Inr)

lemma with_tempfileE:
  assumes "with_tempfile E body w = (r, w')"
  obtains (taken) "r = Inl FileExistsError" "w' = w"
  | (ran) r1 w1 where "fsys w (mkstemp E (fsys w)) = None"
      "body (mkstemp E (fsys w)) (w\<lparr>fsys := (fsys w)(mkstemp E (fsys w) \<mapsto> File [])\<rparr>) = (r1, w1)"
      "calls w' = calls w1"
      "(\<exists>e. os_remove (mkstemp E (fsys w)) (fsys w1) = Inl e \<and> r = Inl e \<and> exit_code (Inl e) = 1 \<and> w' = w1)
       \<or> (\<exists>f'. os_remove (mkstemp E (fsys w)) (fsys w1) = Inr f' \<and> r = r1 \<and> w' = w1\<lparr>fsys := f'\<rparr>)"
proof (cases "fsys w (mkstemp E (fsys w)) = None")
  case False
  with assms have "r = Inl FileExistsError" "w' = w" by (auto simp: with_tempfile_def Let_def)
  then show ?thesis by (rule taken)
next
  case True
  obtain r1 w1 where b: "body (mkstemp E (fsys w)) (w\<lparr>fsys := (fsys w)(mkstemp E (fsys w) \<mapsto> File [])\<rparr>) = (r1, w1)"
    by (cases "body (mkstemp E (fsys w)) (w\<lparr>fsys := (fsys w)(mkstemp E (fsys w) \<mapsto> File [])\<rparr>)")
  from assms True b
  have c: "(r, w') = (case os_remove (mkstemp E (fsys w)) (fsys w1) of
                       Inl e \<Rightarrow> (Inl e, w1) | Inr f' \<Rightarrow> (r1, w1\<lparr>fsys := f'\<rparr>))"
    by (simp add: with_tempfile_def Let_def)
  then have 3: "calls w' = calls w1" by (auto split: sum.splits)
  from c have 4: "(\<exists>e. os_remove (mkstemp E (fsys w)) (fsys w1) = Inl e \<and> r = Inl e \<and> exit_code (Inl e) = 1 \<and> w' = w1)
       \<or> (\<exists>f'. os_remove (mkstemp E (fsys w)) (fsys w1) = Inr f' \<and> r = r1 \<and> w' = w1\<lparr>fsys := f'\<rparr>)"
    by (auto split: sum.splits dest: os_remove_fatal)
  from True b 3 4 show ?thesis by (rule ran)
qed

lemma open_read_fatal: "open_read p f = Inl e \<Longrightarrow> exit_code (Inl e) = 1"
  by (auto simp: open_read_def split: option.splits node.splits)

lemma open_read_isfile:
  "path_isfile f p \<Longrightarrow> \<exists>c. stat f p = Some (File c) \<and> open_read p f = Inr c"
  by (auto simp: path_isfile_def open_read_def split: option.splits node.splits)

lemma load_file_run:
  assumes "load_file E p w = (r, w')" "path_isfile (fsys w) p"
  shows "w' = w \<and> (\<exists>c. stat (fsys w) p = Some (File c)
            \<and> (case json_loads E c of
                  Parsed j \<Rightarrow> r = Inr j
                | Undecodable \<Rightarrow> r = Inl UnicodeDecodeError
                | Malformed \<Rightarrow> r = Inl JSONDecodeError))"
proof -
  from open_read_isfile[OF assms(2)] obtain c where
    c: "stat (fsys w) p = Some (File c)" "open_read p (fsys w) = Inr c" by blast
  from assms(1) c(2) have "w' = w \<and> (case json_loads E c of
                  Parsed j \<Rightarrow> r = Inr j
                | Undecodable \<Rightarrow> r = Inl UnicodeDecodeError
                | Malformed \<Rightarrow> r = Inl JSONDecodeError)"
    by (auto simp: load_file_def bind_apply prim_apply split: parsed.splits)
  with c(1) show ?thesis by blast
qed

lemma read_back_run:
  assumes "bind (gets (\<lambda>f. path_isfile f outp)) (\<lambda>produced.
             bind (if \<not> produced then raise (Exception ''Translator failed to create dream.lock'')
                   else ret ()) (\<lambda>u.
             bind (load_file E outp) (\<lambda>lock. ret (outp, lock)))) w = (r, w')"
  shows "w' = w
     \<and> (\<not> path_isfile (fsys w) outp \<longrightarrow> r = Inl (Exception ''Translator failed to create dream.lock''))
     \<and> (path_isfile (fsys w) outp
          \<longrightarrow> (\<exists>c. stat (fsys w) outp = Some (File c)
                 \<and> (case json_loads E c of
                       Parsed lock \<Rightarrow> r = Inr (outp, lock)
                     | Undecodable \<Rightarrow> r = Inl UnicodeDecodeError
                     | Malformed \<Rightarrow> r = Inl JSONDecodeError)))"
proof (cases "path_isfile (fsys w) outp")
  case False
  with assms show ?thesis by (simp add: bind_apply prim_apply)
next
  case True
  with assms have "bind (load_file E outp) (\<lambda>lock. ret (outp, lock)) w = (r, w')"
    by (simp add: bind_apply prim_apply)
  then show ?thesis
  proof (cases rule: bindE)
    case (fail e)
    from load_file_run[OF fail(1) True] fail(2) True show ?thesis
      by (auto split: parsed.splits)
  next
    case (ok lock w4)
    from load_file_run[OF ok(1) True] ok(2) True show ?thesis
      by (auto simp: prim_apply split: parsed.splits)
  qed
qed

lemma produce_lock_run:
  assumes "produce_lock E a w = (r, w')"
  obtains
    (early) e where "r = Inl e \<and> exit_code (Inl e) = 1 \<and> calls w' = calls w"
  | (eval_stopped) e ce f0 where
      "r = Inl e \<and> exit_code (Inl e) = 1 \<and> is_eval ce \<and> calls w' = calls w @ [(ce, f0)]"
  | (build_stopped) e ce f0 cb f1 where
      "r = Inl e \<and> exit_code (Inl e) = 1 \<and> is_eval ce \<and> is_build cb
         \<and> calls w' = calls w @ [(ce, f0), (cb, f1)]
         \<and> sp_start E ce f0 = None
         \<and> returncode (fst (sp_run E ce f0)) = 0"
  | (translated) ce f0 cb f1 tp tmp f2 fR where
      "is_eval ce \<and> is_build cb
         \<and> calls w' = calls w @ [(ce, f0), (cb, f1), (Translate tp tmp (argv E), f2)]
         \<and> sp_start E ce f0 = None
         \<and> returncode (fst (sp_run E ce f0)) = 0
         \<and> sp_start E cb f1 = None
         \<and> returncode (fst (sp_run E cb f1)) = 0
         \<and> fR = (if path_exists (fsys w) (resolve_output E a (fsys w))
                  then (fsys w)(resolve_output E a (fsys w) := None) else fsys w)
         \<and> tmp = mkstemp E fR \<and> fR tmp = None
         \<and> (\<forall>p. p \<noteq> tmp \<longrightarrow> f0 p = fR p)
         \<and> (\<forall>p. p \<noteq> tmp \<longrightarrow> f1 p = snd (sp_run E ce f0) p)
         \<and> (\<forall>p. p \<noteq> ''translator'' \<longrightarrow> f2 p = snd (sp_run E cb f1) p)
         \<and> f2 ''translator'' = None
         \<and> (sp_start E (Translate tp tmp (argv E)) f2 \<noteq> None
               \<longrightarrow> (\<exists>e. r = Inl e \<and> exit_code (Inl e) = 1 \<and> (\<forall>m. e \<noteq> Exception m)))
         \<and> (sp_start E (Translate tp tmp (argv E)) f2 = None \<longrightarrow>
              (\<forall>e. os_remove tmp (snd (sp_run E (Translate tp tmp (argv E)) f2)) = Inl e
                 \<longrightarrow> r = Inl e \<and> fsys w' = snd (sp_run E (Translate tp tmp (argv E)) f2))
            \<and> (\<forall>fT. os_remove tmp (snd (sp_run E (Translate tp tmp (argv E)) f2)) = Inr fT
                 \<longrightarrow> fsys w' = fT
                   \<and> (\<not> path_isfile fT (resolve_output E a (fsys w))
                        \<longrightarrow> r = Inl (Exception ''Translator failed to create dream.lock''))
                   \<and> (path_isfile fT (resolve_output E a (fsys w))
                        \<longrightarrow> (\<exists>c. stat fT (resolve_output E a (fsys w)) = Some (File c)
                               \<and> (case json_loads E c of
                                     Parsed lock \<Rightarrow> r = Inr (resolve_output E a (fsys w), lock)
                                   | Undecodable \<Rightarrow> r = Inl UnicodeDecodeError
                                   | Malformed \<Rightarrow> r = Inl JSONDecodeError)))))"
proof -
  let ?outp = "resolve_output E a (fsys w)"
  let ?fR = "if path_exists (fsys w) ?outp then (fsys w)(?outp := None) else fsys w"
  let ?tmp = "mkstemp E ?fR"
  from assms[unfolded produce_lock_def Let_def]
  show thesis
  proof (cases rule: bindE)
    case (fail e)
    then have "r = Inl e \<and> exit_code (Inl e) = 1 \<and> calls w' = calls w"
      by (auto simp: prim_apply dest: validate_inputs_fatal)
    then show ?thesis by (rule that(1))
  next
    case (ok x w1)
    obtain ifs ids where x: "x = (ifs, ids)" by (cases x)
    from ok(1) have w1: "w1 = w" by (simp add: prim_apply)
    let ?body = "select_build_run E (translator_input ifs ids ?outp (translator a)
                    (collect_special_args [] (vars_args a)))"
    let ?rest = "bind (gets (\<lambda>f. path_isfile f ?outp)) (\<lambda>produced.
         bind (if \<not> produced then raise (Exception ''Translator failed to create dream.lock'')
               else ret ()) (\<lambda>u.
         bind (load_file E ?outp) (\<lambda>lock. ret (?outp, lock))))"
    from ok(2) have
      "bind (remove_output ?outp) (\<lambda>u. bind (with_tempfile E ?body) (\<lambda>u. ?rest)) w = (r, w')"
      by (simp add: x w1 bind_apply prim_apply)
    then show ?thesis
    proof (cases rule: bindE)
      case (fail e)
      from remove_output_run[OF fail(1)]
      have "r = Inl e \<and> exit_code (Inl e) = 1 \<and> calls w' = calls w"
        using fail(2) by auto
      then show ?thesis by (rule that(1))
    next
      case (ok u w2)
      from remove_output_run[OF ok(1)]
      have w2: "calls w2 = calls w" "fsys w2 = ?fR" by auto
      obtain rt wt where wt: "with_tempfile E ?body w2 = (rt, wt)"
        by (cases "with_tempfile E ?body w2")
      have failed: "r = Inl e \<and> w' = wt" if "rt = Inl e" for e
        using ok(2) wt that by (simp add: bind_apply)
      have rest: "?rest wt = (r, w')" if "rt = Inr ()"
        using ok(2) wt that by (simp add: bind_apply)
      from wt show ?thesis
      proof (cases rule: with_tempfileE)
        case taken
        with failed[of FileExistsError] w2
        have "r = Inl FileExistsError \<and> exit_code (Inl FileExistsError) = 1 \<and> calls w' = calls w" by simp
        then show ?thesis by (rule that(1))
      next
        case (ran r1 w3)
        have stop: "\<exists>e. r = Inl e \<and> exit_code (Inl e) = 1 \<and> calls w' = calls w3"
          if "r1 = Inl e1" "exit_code (Inl e1) = 1" for e1
        proof -
          from ran(4) that obtain e where "rt = Inl e" "exit_code (Inl e) = 1" by auto
          with failed[of e] ran(3) show ?thesis by auto
        qed
        from ran(2) show ?thesis
        proof (cases rule: select_build_run_run)
          case (eval_stopped e' f0)
          with stop[of e'] obtain e where "r = Inl e" "exit_code (Inl e) = 1" "calls w' = calls w3" by auto
          with eval_stopped w2
          have "r = Inl e \<and> exit_code (Inl e) = 1 \<and> is_eval (NixEval (dream2nixSrc E) (mkstemp E (fsys w2)))
               \<and> calls w' = calls w @ [(NixEval (dream2nixSrc E) (mkstemp E (fsys w2)), f0)]"
            by simp
          then show ?thesis by (rule that(2))
        next
          case (build_stopped e' f0 cb f1)
          with stop[of e'] obtain e where "r = Inl e" "exit_code (Inl e) = 1" "calls w' = calls w3" by auto
          with build_stopped w2
          have "r = Inl e \<and> exit_code (Inl e) = 1 \<and> is_eval (NixEval (dream2nixSrc E) (mkstemp E (fsys w2)))
               \<and> is_build cb
               \<and> calls w' = calls w @ [(NixEval (dream2nixSrc E) (mkstemp E (fsys w2)), f0), (cb, f1)]
               \<and> sp_start E (NixEval (dream2nixSrc E) (mkstemp E (fsys w2))) f0 = None
               \<and> returncode (fst (sp_run E (NixEval (dream2nixSrc E) (mkstemp E (fsys w2))) f0)) = 0"
            by simp
          then show ?thesis by (rule that(3))
        next
          case (translated f0 cb f1 tp f2)
          let ?ce = "NixEval (dream2nixSrc E) ?tmp"
          let ?ct = "Translate tp ?tmp (argv E)"
          let ?fT0 = "snd (sp_run E ?ct f2)"
          have tmp: "mkstemp E (fsys w2) = ?tmp" using w2 by simp
          have calls3: "calls w3 = calls w @ [(?ce, f0), (cb, f1), (?ct, f2)]"
            using translated w2 by simp
          have rw: "rt = Inl e \<Longrightarrow> r = Inl e" "calls w' = calls w3" for e
          proof -
            show "rt = Inl e \<Longrightarrow> r = Inl e" using failed by simp
            show "calls w' = calls w3"
            proof (cases rt)
              case (Inl e)
              with failed ran(3) show ?thesis by simp
            next
              case (Inr u)
              from read_back_run[OF rest] Inr ran(3) show ?thesis by simp
            qed
          qed
          have nostart: "\<exists>e. r = Inl e \<and> exit_code (Inl e) = 1 \<and> (\<forall>m. e \<noteq> Exception m)"
            if "sp_start E ?ct f2 \<noteq> None"
          proof -
            from that translated tmp obtain se where r1: "r1 = Inl (start_exn se)" by auto
            from ran(4) r1 obtain e where e: "rt = Inl e" "exit_code (Inl e) = 1"
              and "e = FileNotFoundError \<or> e = IsADirectoryError \<or> e = PermissionError"
              using start_exn_error[of se] start_exn_fatal[of se] by (auto dest: os_remove_error)
            then have "\<forall>m. e \<noteq> Exception m" by auto
            with failed[OF e(1)] e(2) show ?thesis by simp
          qed
          have started: "(\<forall>e. os_remove ?tmp ?fT0 = Inl e \<longrightarrow> r = Inl e \<and> fsys w' = ?fT0)
            \<and> (\<forall>fT. os_remove ?tmp ?fT0 = Inr fT
                 \<longrightarrow> fsys w' = fT
                   \<and> (\<not> path_isfile fT ?outp
                        \<longrightarrow> r = Inl (Exception ''Translator failed to create dream.lock''))
                   \<and> (path_isfile fT ?outp
                        \<longrightarrow> (\<exists>c. stat fT ?outp = Some (File c)
                               \<and> (case json_loads E c of
                                     Parsed lock \<Rightarrow> r = Inr (?outp, lock)
                                   | Undecodable \<Rightarrow> r = Inl UnicodeDecodeError
                                   | Malformed \<Rightarrow> r = Inl JSONDecodeError))))"
            if "sp_start E ?ct f2 = None"
          proof -
            from that translated tmp have r1: "r1 = Inr ()" "fsys w3 = ?fT0" by auto
            from ran(4) show ?thesis
            proof
              assume "\<exists>e. os_remove (mkstemp E (fsys w2)) (fsys w3) = Inl e \<and> rt = Inl e
                        \<and> exit_code (Inl e) = 1 \<and> wt = w3"
              then obtain e where e: "os_remove ?tmp ?fT0 = Inl e" "rt = Inl e" "wt = w3"
                using r1 tmp by auto
              with failed[of e] r1 show ?thesis by simp
            next
              assume "\<exists>f'. os_remove (mkstemp E (fsys w2)) (fsys w3) = Inr f' \<and> rt = r1
                        \<and> wt = w3\<lparr>fsys := f'\<rparr>"
              then obtain f' where f': "os_remove ?tmp ?fT0 = Inr f'" "rt = Inr ()" "fsys wt = f'"
                using r1 tmp by auto
              from read_back_run[OF rest[OF f'(2)]] f' show ?thesis by simp
            qed
          qed
          have "is_eval ?ce \<and> is_build cb
             \<and> calls w' = calls w @ [(?ce, f0), (cb, f1), (?ct, f2)]
             \<and> sp_start E ?ce f0 = None
             \<and> returncode (fst (sp_run E ?ce f0)) = 0
             \<and> sp_start E cb f1 = None
             \<and> returncode (fst (sp_run E cb f1)) = 0
             \<and> ?fR = ?fR
             \<and> ?tmp = mkstemp E ?fR \<and> ?fR ?tmp = None
             \<and> (\<forall>p. p \<noteq> ?tmp \<longrightarrow> f0 p = ?fR p)
             \<and> (\<forall>p. p \<noteq> ?tmp \<longrightarrow> f1 p = snd (sp_run E ?ce f0) p)
             \<and> (\<forall>p. p \<noteq> ''translator'' \<longrightarrow> f2 p = snd (sp_run E cb f1) p)
             \<and> f2 ''translator'' = None
             \<and> (sp_start E ?ct f2 \<noteq> None
                   \<longrightarrow> (\<exists>e. r = Inl e \<and> exit_code (Inl e) = 1 \<and> (\<forall>m. e \<noteq> Exception m)))
             \<and> (sp_start E ?ct f2 = None \<longrightarrow>
                  (\<forall>e. os_remove ?tmp ?fT0 = Inl e \<longrightarrow> r = Inl e \<and> fsys w' = ?fT0)
                \<and> (\<forall>fT. os_remove ?tmp ?fT0 = Inr fT
                     \<longrightarrow> fsys w' = fT
                       \<and> (\<not> path_isfile fT ?outp
                            \<longrightarrow> r = Inl (Exception ''Translator failed to create dream.lock''))
                       \<and> (path_isfile fT ?outp
                            \<longrightarrow> (\<exists>c. stat fT ?outp = Some (File c)
                                   \<and> (case json_loads E c of
                                         Parsed lock \<Rightarrow> r = Inr (?outp, lock)
                                       | Undecodable \<Rightarrow> r = Inl UnicodeDecodeError
                                       | Malformed \<Rightarrow> r = Inl JSONDecodeError)))))"
            using translated ran(1) w2 rw(2) calls3 nostart started by simp
          then show ?thesis by (rule that(4))
        qed
      qed
    qed
  qed
qed


lemma not_Exception_fatal: "\<forall>m. e \<noteq> Exception m \<Longrightarrow> \<forall>n. e \<noteq> SystemExit n \<Longrightarrow> exit_code (Inl e) = 1"
  by (cases e) auto

lemma delitem_error: "delitem x k = Inl e \<Longrightarrow> e = KeyError k \<or> e = TypeError"
  by (cases x) (auto simp: dict_del_def split: if_splits sum.splits)

lemma strip_sources_error: "strip_sources d = Inl e \<Longrightarrow> e = KeyError ''hash'' \<or> e = TypeError"
  by (induction d rule: strip_sources.induct) (auto split: sum.splits dest: delitem_error)

lemma getitem_error: "getitem x k = Inl e \<Longrightarrow> e = KeyError k \<or> e = TypeError"
  by (cases x) (auto split: option.splits)

lemma items_of_error: "items_of x = Inl e \<Longrightarrow> e = AttributeError"
  by (cases x) auto

lemma setitem_error: "setitem x k v = Inl e \<Longrightarrow> e = TypeError"
  by (cases x) auto

lemma strip_hashes_error:
  "strip_hashes_from_lock lock = Inl e \<Longrightarrow> (\<exists>k. e = KeyError k) \<or> e = TypeError \<or> e = AttributeError"
  unfolding strip_hashes_from_lock_def
  by (auto split: sum.splits
      dest: getitem_error items_of_error strip_sources_error setitem_error)

lemma set_combined_hash_error:
  "set_combined_hash lock h = Inl e \<Longrightarrow> (\<exists>k. e = KeyError k) \<or> e = TypeError"
  unfolding set_combined_hash_def
  by (auto split: sum.splits dest: getitem_error setitem_error)

lemma strip_and_reset_error:
  "strip_and_reset lock = Inl e \<Longrightarrow> (\<exists>k. e = KeyError k) \<or> e = TypeError \<or> e = AttributeError"
  unfolding strip_and_reset_def
  by (auto split: sum.splits dest: strip_hashes_error set_combined_hash_error)

lemma open_write_error: "open_write p c f = Inl e \<Longrightarrow> e = OSError \<or> e = IsADirectoryError"
  by (auto simp: open_write_def split: option.splits node.splits)

lemma set_combined_hash_Inr:
  "set_combined_hash lock h = Inr lock' \<longleftrightarrow>
     (\<exists>d g. lock = JObj d \<and> dict_get d ''generic'' = Some (JObj g)
        \<and> lock' = JObj (dict_set ''generic'' (JObj (dict_set ''sourcesCombinedHash'' (JStr h) g)) d))"
proof (cases lock)
  case (JObj d)
  show ?thesis
  proof (cases "dict_get d ''generic''")
    case None
    with JObj show ?thesis by (simp add: set_combined_hash_def)
  next
    case (Some x)
    with JObj show ?thesis by (cases x) (auto simp: set_combined_hash_def)
  qed
qed (simp_all add: set_combined_hash_def)

lemma set_combined_hash_again:
  assumes "set_combined_hash lock h0 = Inr lock'"
  shows "\<exists>lock''. set_combined_hash lock' h = Inr lock''"
proof -
  from assms obtain d g where "lock' = JObj (dict_set ''generic'' (JObj (dict_set ''sourcesCombinedHash'' (JStr h0) g)) d)"
    unfolding set_combined_hash_Inr by blast
  then show ?thesis unfolding set_combined_hash_Inr by (simp add: dict_get_set)
qed

lemma strip_and_reset_again:
  assumes "strip_and_reset lock = Inr lockA"
  shows "\<exists>lockB. set_combined_hash lockA h = Inr lockB"
  using assms unfolding strip_and_reset_def
  by (auto split: sum.splits dest: set_combined_hash_again)

lemma read_output_hash_run:
  assumes "read_output_hash p w = (r, w')"
  shows "calls w' = calls w \<and> fsys w' = fsys w
     \<and> ((\<exists>t h. stderr p = Utf8 t \<and> re_search t = Some h \<and> r = Inr h)
        \<or> ((r = Inl UnicodeDecodeError \<or> r = Inl (Exception ''Could not find FOD hash in FOD log''))
            \<and> \<not> (\<exists>t h. stderr p = Utf8 t \<and> re_search t = Some h)))"
proof (cases "stderr p")
  case (NotUtf8 t)
  with assms show ?thesis by (simp add: read_output_hash_def bind_apply prim_apply)
next
  case (Utf8 t)
  show ?thesis
  proof (cases "re_search t")
    case (Some h)
    with Utf8 assms show ?thesis by (simp add: read_output_hash_Some)
  next
    case None
    with Utf8 assms show ?thesis
      by (cases "stdout p") (auto simp: read_output_hash_def bind_apply prim_apply)
  qed
qed

lemma dump_file_run:
  "dump_file E p x w = (r, w') \<longleftrightarrow>
     (case open_write p (json_dumps E x) (fsys w) of
        Inl e \<Rightarrow> r = Inl e \<and> w' = w
      | Inr f' \<Rightarrow> r = Inr () \<and> w' = w\<lparr>fsys := f'\<rparr>)"
  by (simp add: dump_file_def fs_op_run)

lemma calculate_combined_hash_run:
  assumes "calculate_combined_hash E outp lock w = (r, w')"
  obtains
    (before_A) e where
      "r = Inl e \<and> (\<forall>m. e \<noteq> Exception m) \<and> (\<forall>n. e \<noteq> SystemExit n) \<and> calls w' = calls w"
  | (not_started) lockA fA se where
      "strip_and_reset lock = Inr lockA
       \<and> open_write outp (json_dumps E lockA) (fsys w) = Inr fA
       \<and> calls w' = calls w @ [(NixBuildFetchSources (dream2nixSrc E) outp, fA)]
       \<and> sp_start E (NixBuildFetchSources (dream2nixSrc E) outp) fA = Some se
       \<and> fsys w' = fA
       \<and> r = Inl (start_exn se)"
  | (extraction_failed) lockA fA where
      "strip_and_reset lock = Inr lockA
       \<and> open_write outp (json_dumps E lockA) (fsys w) = Inr fA
       \<and> calls w' = calls w @ [(NixBuildFetchSources (dream2nixSrc E) outp, fA)]
       \<and> sp_start E (NixBuildFetchSources (dream2nixSrc E) outp) fA = None
       \<and> fsys w' = snd (sp_run E (NixBuildFetchSources (dream2nixSrc E) outp) fA)
       \<and> (r = Inl UnicodeDecodeError \<or> r = Inl (Exception ''Could not find FOD hash in FOD log''))
       \<and> \<not> (\<exists>t h. stderr (fst (sp_run E (NixBuildFetchSources (dream2nixSrc E) outp) fA)) = Utf8 t
               \<and> re_search t = Some h)"
  | (write_B_failed) e lockA fA t h lockB where
      "strip_and_reset lock = Inr lockA
       \<and> open_write outp (json_dumps E lockA) (fsys w) = Inr fA
       \<and> calls w' = calls w @ [(NixBuildFetchSources (dream2nixSrc E) outp, fA)]
       \<and> sp_start E (NixBuildFetchSources (dream2nixSrc E) outp) fA = None
       \<and> fsys w' = snd (sp_run E (NixBuildFetchSources (dream2nixSrc E) outp) fA)
       \<and> stderr (fst (sp_run E (NixBuildFetchSources (dream2nixSrc E) outp) fA)) = Utf8 t
       \<and> re_search t = Some h
       \<and> set_combined_hash lockA h = Inr lockB
       \<and> open_write outp (json_dumps E lockB) (fsys w') = Inl e
       \<and> r = Inl e \<and> (\<forall>m. e \<noteq> Exception m) \<and> (\<forall>n. e \<noteq> SystemExit n)"
  | (finished) lockA fA t h lockB where
      "strip_and_reset lock = Inr lockA
       \<and> open_write outp (json_dumps E lockA) (fsys w) = Inr fA
       \<and> calls w' = calls w @ [(NixBuildFetchSources (dream2nixSrc E) outp, fA)]
       \<and> sp_start E (NixBuildFetchSources (dream2nixSrc E) outp) fA = None
       \<and> stderr (fst (sp_run E (NixBuildFetchSources (dream2nixSrc E) outp) fA)) = Utf8 t
       \<and> re_search t = Some h
       \<and> set_combined_hash lockA h = Inr lockB
       \<and> open_write outp (json_dumps E lockB)
            (snd (sp_run E (NixBuildFetchSources (dream2nixSrc E) outp) fA)) = Inr (fsys w')
       \<and> r = Inr ()"
proof -
  let ?cf = "NixBuildFetchSources (dream2nixSrc E) outp"
  let ?w0 = "w\<lparr>out := out w @ [''Start building FOD for combined sources to get output hash'']\<rparr>"
  from assms have s0:
    "bind (lift (strip_and_reset lock)) (\<lambda>lockA.
     bind (dump_file E outp lockA) (\<lambda>u.
     bind (run E ?cf) (\<lambda>p.
     bind (read_output_hash p) (\<lambda>hash.
     bind (print_out (''Computed FOD hash: '' @ hash)) (\<lambda>u.
     bind (lift (set_combined_hash lockA hash)) (\<lambda>lockB.
     dump_file E outp lockB)))))) ?w0 = (r, w')"
    by (simp add: calculate_combined_hash_def bind_apply prim_apply)
  show thesis
  proof (cases "strip_and_reset lock")
    case (Inl e)
    with s0 have "r = Inl e \<and> calls w' = calls w" by (auto simp: bind_apply prim_apply)
    with strip_and_reset_error[OF Inl]
    have "r = Inl e \<and> (\<forall>m. e \<noteq> Exception m) \<and> (\<forall>n. e \<noteq> SystemExit n) \<and> calls w' = calls w" by auto
    then show ?thesis by (rule that(1))
  next
    case (Inr lockA)
    with s0 have s1:
      "bind (dump_file E outp lockA) (\<lambda>u.
       bind (run E ?cf) (\<lambda>p.
       bind (read_output_hash p) (\<lambda>hash.
       bind (print_out (''Computed FOD hash: '' @ hash)) (\<lambda>u.
       bind (lift (set_combined_hash lockA hash)) (\<lambda>lockB.
       dump_file E outp lockB))))) ?w0 = (r, w')"
      by (simp add: bind_apply prim_apply)
    show ?thesis
    proof (cases "open_write outp (json_dumps E lockA) (fsys w)")
      case (Inl e)
      then have "dump_file E outp lockA ?w0 = (Inl e, ?w0)" by (simp add: dump_file_run)
      with s1 have "r = Inl e \<and> calls w' = calls w" by (auto simp: bind_apply)
      with open_write_error[OF Inl]
      have "r = Inl e \<and> (\<forall>m. e \<noteq> Exception m) \<and> (\<forall>n. e \<noteq> SystemExit n) \<and> calls w' = calls w" by auto
      then show ?thesis by (rule that(1))
    next
      case (Inr fA)
      let ?p = "fst (sp_run E ?cf fA)"
      let ?ff = "snd (sp_run E ?cf fA)"
      let ?w2 = "?w0\<lparr>fsys := ?ff, calls := calls w @ [(?cf, fA)]\<rparr>"
      from Inr have d: "dump_file E outp lockA ?w0 = (Inr (), ?w0\<lparr>fsys := fA\<rparr>)"
        by (simp add: dump_file_run)
      show ?thesis
      proof (cases "sp_start E ?cf fA")
      case (Some se)
      then have "run E ?cf (?w0\<lparr>fsys := fA\<rparr>)
                   = (Inl (start_exn se), ?w0\<lparr>fsys := fA, calls := calls w @ [(?cf, fA)]\<rparr>)"
        by (simp add: run_run)
      with s1 d have "r = Inl (start_exn se)" "w' = ?w0\<lparr>fsys := fA, calls := calls w @ [(?cf, fA)]\<rparr>"
        by (simp_all add: bind_apply)
      with Some \<open>strip_and_reset lock = Inr lockA\<close> Inr
      have "strip_and_reset lock = Inr lockA
         \<and> open_write outp (json_dumps E lockA) (fsys w) = Inr fA
         \<and> calls w' = calls w @ [(?cf, fA)]
         \<and> sp_start E ?cf fA = Some se
         \<and> fsys w' = fA
         \<and> r = Inl (start_exn se)" by simp
      then show ?thesis by (rule that(2))
      next
      case None
      then have rn: "run E ?cf (?w0\<lparr>fsys := fA\<rparr>) = (Inr ?p, ?w2)"
        by (simp add: run_run)
      from s1 d rn have s2:
        "bind (read_output_hash ?p) (\<lambda>hash.
         bind (print_out (''Computed FOD hash: '' @ hash)) (\<lambda>u.
         bind (lift (set_combined_hash lockA hash)) (\<lambda>lockB.
         dump_file E outp lockB))) ?w2 = (r, w')"
        by (simp add: bind_apply)
      then show ?thesis
      proof (cases rule: bindE)
        case (fail e)
        from read_output_hash_run[OF fail(1)] fail(2) \<open>strip_and_reset lock = Inr lockA\<close> Inr None
        have "strip_and_reset lock = Inr lockA
           \<and> open_write outp (json_dumps E lockA) (fsys w) = Inr fA
           \<and> calls w' = calls w @ [(?cf, fA)]
           \<and> sp_start E ?cf fA = None
           \<and> fsys w' = ?ff
           \<and> (r = Inl UnicodeDecodeError \<or> r = Inl (Exception ''Could not find FOD hash in FOD log''))
           \<and> \<not> (\<exists>t h. stderr ?p = Utf8 t \<and> re_search t = Some h)"
          by auto
        then show ?thesis by (rule that(3))
      next
        case (ok hash w3)
        from read_output_hash_run[OF ok(1)] obtain t where
          w3: "calls w3 = calls w @ [(?cf, fA)]" "fsys w3 = ?ff"
          and t: "stderr ?p = Utf8 t" "re_search t = Some hash"
          by auto
        from strip_and_reset_again[OF \<open>strip_and_reset lock = Inr lockA\<close>, of hash]
        obtain lockB where lockB: "set_combined_hash lockA hash = Inr lockB" ..
        let ?w4 = "w3\<lparr>out := out w3 @ [''Computed FOD hash: '' @ hash]\<rparr>"
        from ok(2) lockB have s3: "dump_file E outp lockB ?w4 = (r, w')"
          by (simp add: bind_apply prim_apply)
        show ?thesis
        proof (cases "open_write outp (json_dumps E lockB) ?ff")
          case (Inl e)
          with s3 w3 have "r = Inl e" "w' = ?w4" by (simp_all add: dump_file_run)
          with open_write_error[OF Inl] Inl w3 t lockB \<open>strip_and_reset lock = Inr lockA\<close> Inr None
          have "strip_and_reset lock = Inr lockA
           \<and> open_write outp (json_dumps E lockA) (fsys w) = Inr fA
           \<and> calls w' = calls w @ [(?cf, fA)]
           \<and> sp_start E ?cf fA = None
           \<and> fsys w' = ?ff
           \<and> stderr ?p = Utf8 t
           \<and> re_search t = Some hash
           \<and> set_combined_hash lockA hash = Inr lockB
           \<and> open_write outp (json_dumps E lockB) (fsys w') = Inl e
           \<and> r = Inl e \<and> (\<forall>m. e \<noteq> Exception m) \<and> (\<forall>n. e \<noteq> SystemExit n)"
            by auto
          then show ?thesis by (rule that(4))
        next
          case (Inr fB)
          with s3 w3 have "r = Inr ()" "w' = ?w4\<lparr>fsys := fB\<rparr>" by (simp_all add: dump_file_run)
          with Inr w3 t lockB \<open>strip_and_reset lock = Inr lockA\<close> None
            \<open>open_write outp (json_dumps E lockA) (fsys w) = Inr fA\<close>
          have "strip_and_reset lock = Inr lockA
           \<and> open_write outp (json_dumps E lockA) (fsys w) = Inr fA
           \<and> calls w' = calls w @ [(?cf, fA)]
           \<and> sp_start E ?cf fA = None
           \<and> stderr ?p = Utf8 t
           \<and> re_search t = Some hash
           \<and> set_combined_hash lockA hash = Inr lockB
           \<and> open_write outp (json_dumps E lockB) ?ff = Inr (fsys w')
           \<and> r = Inr ()"
            by simp
          then show ?thesis by (rule that(5))
        qed
      qed
      qed
    qed
  qed
qed

lemma translate_split:
  assumes "translate E a w = (r, w')"
  obtains
    (no_lock) e where "produce_lock E a w = (Inl e, w')" "r = Inl e"
  | (plain) outp lock w1 where "produce_lock E a w = (Inr (outp, lock), w1)" "\<not> combined a"
      "r = Inr ()" "calls w' = calls w1" "fsys w' = fsys w1"
  | (consolidated) outp lock w1 r2 w2 where "produce_lock E a w = (Inr (outp, lock), w1)" "combined a"
      "calculate_combined_hash E outp lock w1 = (r2, w2)"
      "calls w' = calls w2" "fsys w' = fsys w2"
      "case r2 of Inl e \<Rightarrow> r = Inl e | Inr u \<Rightarrow> r = Inr ()"
proof -
  from assms[unfolded translate_def] show thesis
  proof (cases rule: bindE)
    case (fail e)
    then show ?thesis by (rule that(1))
  next
    case (ok x w1)
    obtain outp lock where x: "x = (outp, lock)" by (cases x)
    show ?thesis
    proof (cases "combined a")
      case False
      with ok(2) x have "r = Inr ()" "calls w' = calls w1" "fsys w' = fsys w1"
        by (auto simp: bind_apply prim_apply)
      with ok(1) x False show ?thesis by (auto intro: that(2))
    next
      case True
      obtain r2 w2 where c: "calculate_combined_hash E outp lock w1 = (r2, w2)"
        by (cases "calculate_combined_hash E outp lock w1")
      with ok(2) x True have "calls w' = calls w2" "fsys w' = fsys w2"
        "case r2 of Inl e \<Rightarrow> r = Inl e | Inr u \<Rightarrow> r = Inr ()"
        by (auto simp: bind_apply prim_apply split: sum.splits)
      with ok(1) x True c show ?thesis by (auto intro: that(3))
    qed
  qed
qed




section \<open>Properties of whole runs\<close>


lemma follow_end_not_link: "follow n f p = Some q \<Longrightarrow> f q \<noteq> Some (Link t)"
  by (induction n f p rule: follow.induct) (auto split: option.splits node.splits)

lemma follow_absent: "f p = None \<Longrightarrow> follow (Suc n) f p = Some p"
  by simp

lemma stat_absent: "f p = None \<Longrightarrow> stat f p = None"
  by (simp add: stat_def eval_nat_numeral)

lemma absent_not_exists: "f p = None \<Longrightarrow> \<not> path_exists f p"
  by (simp add: path_exists_def stat_absent)

lemma exists_present: "path_exists f p \<Longrightarrow> f p \<noteq> None"
  using absent_not_exists by blast

lemma follow_write_end:
  "follow n f p = Some q \<Longrightarrow> follow n (f(q \<mapsto> File c)) p = Some q"
proof (induction n f p rule: follow.induct)
  case (1 f p)
  then show ?case by simp
next
  case (2 n f p)
  show ?case
  proof (cases "f p")
    case None
    with 2 show ?thesis by auto
  next
    case (Some nd)
    show ?thesis
    proof (cases nd)
      case (Link p')
      with Some 2 have q: "follow n f p' = Some q" by simp
      from follow_end_not_link[OF this] Some Link have "p \<noteq> q" by auto
      with 2 Some Link q show ?thesis by simp
    qed (use 2 Some in auto)
  qed
qed

lemma open_write_stat: "open_write p c f = Inr f' \<Longrightarrow> stat f' p = Some (File c)"
proof -
  assume a: "open_write p c f = Inr f'"
  then obtain q where q: "follow 41 f p = Some q" and f': "f' = f(q \<mapsto> File c)"
    by (auto simp: open_write_def split: option.splits node.splits)
  from follow_write_end[OF q, of c] f' show ?thesis by (simp add: stat_def)
qed

lemma stat_File_open_write:
  assumes "stat f p = Some (File c0)"
  shows "\<exists>f'. open_write p c f = Inr f'"
  using assms by (auto simp: stat_def open_write_def split: option.splits)

lemma follow_remove:
  "follow n (f(t := None)) p = Some q \<Longrightarrow> (f(t := None)) q = Some (File c)
     \<Longrightarrow> follow n f p = Some q \<and> f q = Some (File c)"
proof (induction n "f(t := None)" p arbitrary: rule: follow.induct)
  case (1 p)
  then show ?case by simp
next
  case (2 n p)
  show ?case
  proof (cases "p = t")
    case True
    with 2 show ?thesis by (auto split: if_splits)
  next
    case False
    with 2 show ?thesis by (auto split: option.splits node.splits if_splits)
  qed
qed

lemma isfile_remove: "path_isfile (f(t := None)) p \<Longrightarrow> path_isfile f p"
proof -
  assume "path_isfile (f(t := None)) p"
  then obtain q c where "follow 41 (f(t := None)) p = Some q" "(f(t := None)) q = Some (File c)"
    by (auto simp: path_isfile_def stat_def split: option.splits node.splits)
  from follow_remove[OF this] show ?thesis by (simp add: path_isfile_def stat_def)
qed

lemma produce_lock_fatal:
  assumes "produce_lock E a w = (Inl e, w')"
  shows "exit_code (Inl e) = 1"
proof -
  define r :: "exn + path \<times> json" where "r = Inl e"
  from assms have "produce_lock E a w = (r, w')" by (simp add: r_def)
  then have "\<exists>e'. r = Inl e' \<and> exit_code (Inl e') = 1"
  proof (cases rule: produce_lock_run)
    case (translated ce f0 cb f1 tp tmp f2 fR)
    let ?ct = "Translate tp tmp (argv E)"
    let ?outp = "resolve_output E a (fsys w)"
    from translated have
      ns: "sp_start E ?ct f2 \<noteq> None
             \<longrightarrow> (\<exists>e. r = Inl e \<and> exit_code (Inl e) = 1 \<and> (\<forall>m. e \<noteq> Exception m))"
      by (elim conjE) assumption
    from translated have
      st: "sp_start E ?ct f2 = None \<longrightarrow>
              (\<forall>e. os_remove tmp (snd (sp_run E ?ct f2)) = Inl e
                 \<longrightarrow> r = Inl e \<and> fsys w' = snd (sp_run E ?ct f2))
            \<and> (\<forall>fT. os_remove tmp (snd (sp_run E ?ct f2)) = Inr fT
                 \<longrightarrow> fsys w' = fT
                   \<and> (\<not> path_isfile fT ?outp
                        \<longrightarrow> r = Inl (Exception ''Translator failed to create dream.lock''))
                   \<and> (path_isfile fT ?outp
                        \<longrightarrow> (\<exists>c. stat fT ?outp = Some (File c)
                               \<and> (case json_loads E c of
                                     Parsed lock \<Rightarrow> r = Inr (?outp, lock)
                                   | Undecodable \<Rightarrow> r = Inl UnicodeDecodeError
                                   | Malformed \<Rightarrow> r = Inl JSONDecodeError))))"
      by (elim conjE) assumption
    show ?thesis
    proof (cases "sp_start E ?ct f2")
      case (Some se)
      with ns show ?thesis by auto
    next
      case None
      show ?thesis
      proof (cases "os_remove tmp (snd (sp_run E ?ct f2))")
        case (Inl e')
        with None st os_remove_fatal[OF Inl] show ?thesis by simp
      next
        case (Inr fT)
        show ?thesis
        proof (cases "path_isfile fT ?outp")
          case False
          with Inr None st show ?thesis by simp
        next
          case True
          with Inr None st obtain c where
            "case json_loads E c of
               Parsed lock \<Rightarrow> r = Inr (?outp, lock)
             | Undecodable \<Rightarrow> r = Inl UnicodeDecodeError
             | Malformed \<Rightarrow> r = Inl JSONDecodeError" by auto
          then show ?thesis by (cases "json_loads E c") (auto simp: r_def)
        qed
      qed
    qed
  qed auto
  then show ?thesis by (simp add: r_def)
qed

lemma produce_lock_calls:
  assumes "produce_lock E a w = (r, w')" "calls w = []"
  shows "\<forall>(c, f)\<in>set (calls w'). \<not> is_fetch c"
  using assms(1)
proof (cases rule: produce_lock_run)
  case (early e)
  with assms(2) show ?thesis by simp
next
  case (eval_stopped e ce f0)
  with assms(2) show ?thesis by (cases ce) auto
next
  case (build_stopped e ce f0 cb f1)
  with assms(2) show ?thesis by (cases ce; cases cb) auto
next
  case (translated ce f0 cb f1 tp tmp f2 fR)
  with assms(2) show ?thesis by (cases ce; cases cb) auto
qed

lemma translate_fatal:
  assumes "translate E a w = (Inl e, w')"
  shows "exit_code (Inl e) = 1"
  using assms
proof (cases rule: translate_split)
  case (no_lock e')
  then show ?thesis using produce_lock_fatal by auto
next
  case (plain outp lock w1)
  then show ?thesis by simp
next
  case (consolidated outp lock w1 r2 w2)
  from consolidated(3) show ?thesis
  proof (cases rule: calculate_combined_hash_run)
    case (before_A e')
    with consolidated(6) show ?thesis by (auto intro: not_Exception_fatal)
  next
    case (not_started lockA fA se)
    with consolidated(6) start_exn_fatal[of se] show ?thesis by auto
  next
    case (extraction_failed lockA fA)
    with consolidated(6) show ?thesis by auto
  next
    case (write_B_failed e' lockA fA t h lockB)
    with consolidated(6) show ?thesis by (auto intro: not_Exception_fatal)
  next
    case (finished lockA fA t h lockB)
    with consolidated(6) show ?thesis by simp
  qed
qed

lemma produce_lock_missing_input:
  assumes "\<exists>p\<in>set (input a). \<not> path_exists (fsys w) p"
  shows "\<exists>e. produce_lock E a w = (Inl e, w)"
proof -
  from assms have "\<not> (\<exists>u. check_inputs (fsys w) (input a) = Inr u)"
    by (simp add: check_inputs_Inr)
  then obtain e where "check_inputs (fsys w) (input a) = Inl e"
    by (cases "check_inputs (fsys w) (input a)") auto
  then have "validate_inputs (input a) (fsys w) = Inl e" by (simp add: validate_inputs_def)
  then have "produce_lock E a w = (Inl e, w)"
    by (simp add: produce_lock_def Let_def bind_apply prim_apply)
  then show ?thesis ..
qed

lemma translate_missing_input:
  assumes "\<exists>p\<in>set (input a). \<not> path_exists (fsys w) p" "translate E a w = (r, w')"
  shows "\<exists>e. r = Inl e"
proof -
  from produce_lock_missing_input[OF assms(1)] obtain e where "produce_lock E a w = (Inl e, w)" ..
  with assms(2) show ?thesis by (auto simp: translate_def bind_apply)
qed

lemma translate_success:
  assumes "translate E a w = (Inr (), w')" "calls w = []"
  obtains ce f0 cb f1 tp tmp f2 cs where
    "calls w' = [(ce, f0), (cb, f1), (Translate tp tmp (argv E), f2)] @ cs"
    "is_eval ce" "is_build cb"
    "returncode (fst (sp_run E ce f0)) = 0"
    "returncode (fst (sp_run E cb f1)) = 0"
    "path_isfile ((snd (sp_run E (Translate tp tmp (argv E)) f2))(tmp := None))
        (resolve_output E a (fsys w))"
    "cs = [] \<or> (\<exists>cf fA t h. cs = [(cf, fA)] \<and> is_fetch cf \<and> sp_start E cf fA = None
                   \<and> stderr (fst (sp_run E cf fA)) = Utf8 t \<and> re_search t = Some h)"
    "sp_start E ce f0 = None" "sp_start E cb f1 = None"
    "sp_start E (Translate tp tmp (argv E)) f2 = None"
    "snd (sp_run E (Translate tp tmp (argv E)) f2) tmp \<noteq> None"
proof -
  note goal = that
  have pl: thesis if pl: "produce_lock E a w = (Inr (outp, lock), w1)"
    and cs: "calls w' = calls w1 @ cs"
      "cs = [] \<or> (\<exists>cf fA t h. cs = [(cf, fA)] \<and> is_fetch cf \<and> sp_start E cf fA = None
                   \<and> stderr (fst (sp_run E cf fA)) = Utf8 t \<and> re_search t = Some h)"
    for outp lock w1 cs
    using pl
  proof (cases rule: produce_lock_run)
    case (translated ce f0 cb f1 tp tmp f2 fR)
    let ?ct = "Translate tp tmp (argv E)"
    from translated have st: "sp_start E ?ct f2 = None" by (cases "sp_start E ?ct f2") auto
    with translated obtain fT where fT: "os_remove tmp (snd (sp_run E ?ct f2)) = Inr fT"
      by (cases "os_remove tmp (snd (sp_run E ?ct f2))") auto
    from os_remove_Inr[OF fT] have fT': "fT = (snd (sp_run E ?ct f2))(tmp := None)" .
    from fT have pres: "snd (sp_run E ?ct f2) tmp \<noteq> None"
      by (auto simp: os_remove_def split: option.splits)
    from translated st fT have isf: "path_isfile fT (resolve_output E a (fsys w))"
      by (cases "path_isfile fT (resolve_output E a (fsys w))") auto
    show ?thesis
      by (rule goal[of ce f0 cb f1 tp tmp f2 cs])
         (use translated isf[unfolded fT'] cs assms(2) st pres in auto)
  qed auto
  from assms(1) show thesis
  proof (cases rule: translate_split)
    case (no_lock e)
    then show ?thesis by simp
  next
    case (plain outp lock w1)
    show ?thesis by (rule pl[OF plain(1), of "[]"]) (use plain in auto)
  next
    case (consolidated outp lock w1 r2 w2)
    from consolidated(3) show ?thesis
    proof (cases rule: calculate_combined_hash_run)
      case (finished lockA fA t h lockB)
      show ?thesis
        by (rule pl[OF consolidated(1), of "[(NixBuildFetchSources (dream2nixSrc E) outp, fA)]"])
           (use finished consolidated in auto)
    qed (use consolidated in auto)
  qed
qed

text \<open>Running \<open>translate\<close> on the sample data.\<close>


lemmas demo_defs =
  env_demo_def run_demo_def loads_demo_def oracle_answer_def
  args_demo_def defaults_demo_def world_demo_def fs_demo_def lock_demo_def

lemmas run_defs =
  translate_def produce_lock_def calculate_combined_hash_def select_build_run_def
  select_translator_def build_translator_def execute_translator_def
  remove_output_def fail_if_nonzero_def read_output_hash_def with_tempfile_def
  dump_tmp_def dump_file_def load_file_def loads_bytes_def run_def fs_op_def
  bind_apply prim_apply Let_def
  validate_inputs_def resolve_output_def translator_input_def computed_fields_def
  vars_args_def dict_update_def
  strip_and_reset_def strip_hashes_from_lock_def set_combined_hash_def
  dict_get_def dict_del_def dict_keys_def
  os_remove_def open_read_def open_write_def
  path_exists_def path_isfile_def path_isdir_def stat_def eval_nat_numeral
  match_here_def FOD_PATH_def

lemma demo_success:
  "fst (translate (env_demo 0 ''x FOD_PATH=abc= y'') args_demo world_demo) = Inr ()"
  by (simp add: run_defs demo_defs)

lemma demo_oracle_fails:
  "fst (translate (env_demo 2 ''x FOD_PATH=abc= y'') args_demo world_demo) = Inl (SystemExit 1)"
  by (simp add: run_defs demo_defs)


lemma demo_calls:
  "map fst (calls (snd (translate (env_demo 0 ''x FOD_PATH=abc= y'') args_demo world_stale)))
     = [NixEval ''/d2n'' ''/tmp/args'',
        NixBuildTranslator ''/d2n'' (JStr ''nodejs'') (JStr ''pure'') (JStr ''package-lock''),
        Translate ''translator'' ''/tmp/args'' [''translate'', ''pkg.json''],
        NixBuildFetchSources ''/d2n'' ''out'']"
  by (simp add: run_defs demo_defs world_stale_def)

lemma in_map_fst: "c \<in> set (map fst xs) \<Longrightarrow> \<exists>f. (c, f) \<in> set xs"
  by force

lemma run_demo_frame:
  "is_eval c \<or> is_build c \<Longrightarrow> g ''out'' = None \<Longrightarrow> snd (run_demo rc log c g) ''out'' = None"
  by (cases c) (simp_all add: run_demo_def)

text \<open>What is known of a run whose log holds a call of the translator.\<close>


lemma produce_lock_translate_call:
  assumes "produce_lock E a w = (r1, w1)" "calls w = []"
    and "(Translate tp tn av, f) \<in> set (calls w1)"
  obtains ce f0 cb f1 fR where
    "is_eval ce" "is_build cb"
    "calls w1 = [(ce, f0), (cb, f1), (Translate tp tn av, f)]"
    "fR = (if path_exists (fsys w) (resolve_output E a (fsys w))
           then (fsys w)(resolve_output E a (fsys w) := None) else fsys w)"
    "tn = mkstemp E fR"
    "\<forall>p. p \<noteq> tn \<longrightarrow> f0 p = fR p"
    "\<forall>p. p \<noteq> tn \<longrightarrow> f1 p = snd (sp_run E ce f0) p"
    "\<forall>p. p \<noteq> ''translator'' \<longrightarrow> f p = snd (sp_run E cb f1) p"
    "f ''translator'' = None"
    "sp_start E (Translate tp tn av) f \<noteq> None
       \<longrightarrow> (\<exists>e. r1 = Inl e \<and> (\<forall>m. e \<noteq> Exception m))"
    "\<forall>e. sp_start E (Translate tp tn av) f = None
          \<longrightarrow> os_remove tn (snd (sp_run E (Translate tp tn av) f)) = Inl e \<longrightarrow> r1 = Inl e"
    "\<forall>fT. sp_start E (Translate tp tn av) f = None
          \<longrightarrow> os_remove tn (snd (sp_run E (Translate tp tn av) f)) = Inr fT
          \<longrightarrow> fsys w1 = fT
            \<and> (r1 = Inl (Exception ''Translator failed to create dream.lock'')
                  \<longleftrightarrow> \<not> path_isfile fT (resolve_output E a (fsys w)))
            \<and> ((\<exists>x. r1 = Inr x) \<longrightarrow> path_isfile fT (resolve_output E a (fsys w)))"
  using assms(1)
proof (cases rule: produce_lock_run)
  case (early e)
  with assms(2,3) show ?thesis by simp
next
  case (eval_stopped e ce f0)
  with assms(2,3) show ?thesis by (cases ce) auto
next
  case (build_stopped e ce f0 cb f1)
  with assms(2,3) show ?thesis by (cases ce; cases cb) auto
next
  case (translated ce f0 cb f1 tp' tmp f2 fR)
  let ?outp = "resolve_output E a (fsys w)"
  let ?ct = "Translate tp' tmp (argv E)"
  from translated assms(2,3) have eq: "tp' = tp" "tmp = tn" "argv E = av" "f2 = f"
    by (cases ce; cases cb; auto)+
  from translated have
    ns: "sp_start E ?ct f2 \<noteq> None
           \<longrightarrow> (\<exists>e. r1 = Inl e \<and> exit_code (Inl e) = 1 \<and> (\<forall>m. e \<noteq> Exception m))"
    by (elim conjE) assumption
  from translated have
    st: "sp_start E ?ct f2 = None \<longrightarrow>
            (\<forall>e. os_remove tmp (snd (sp_run E ?ct f2)) = Inl e
               \<longrightarrow> r1 = Inl e \<and> fsys w1 = snd (sp_run E ?ct f2))
          \<and> (\<forall>fT. os_remove tmp (snd (sp_run E ?ct f2)) = Inr fT
               \<longrightarrow> fsys w1 = fT
                 \<and> (\<not> path_isfile fT ?outp
                      \<longrightarrow> r1 = Inl (Exception ''Translator failed to create dream.lock''))
                 \<and> (path_isfile fT ?outp
                      \<longrightarrow> (\<exists>c. stat fT ?outp = Some (File c)
                             \<and> (case json_loads E c of
                                   Parsed lock \<Rightarrow> r1 = Inr (?outp, lock)
                                 | Undecodable \<Rightarrow> r1 = Inl UnicodeDecodeError
                                 | Malformed \<Rightarrow> r1 = Inl JSONDecodeError))))"
    by (elim conjE) assumption
  have 10: "sp_start E (Translate tp tn av) f \<noteq> None
       \<longrightarrow> (\<exists>e. r1 = Inl e \<and> (\<forall>m. e \<noteq> Exception m))"
    using ns eq by auto
  have 11: "\<forall>e. sp_start E (Translate tp tn av) f = None
          \<longrightarrow> os_remove tn (snd (sp_run E (Translate tp tn av) f)) = Inl e \<longrightarrow> r1 = Inl e"
    using st eq by auto
  have 12: "\<forall>fT. sp_start E (Translate tp tn av) f = None
          \<longrightarrow> os_remove tn (snd (sp_run E (Translate tp tn av) f)) = Inr fT
          \<longrightarrow> fsys w1 = fT
            \<and> (r1 = Inl (Exception ''Translator failed to create dream.lock'')
                  \<longleftrightarrow> \<not> path_isfile fT (resolve_output E a (fsys w)))
            \<and> ((\<exists>x. r1 = Inr x) \<longrightarrow> path_isfile fT (resolve_output E a (fsys w)))"
  proof (intro allI impI)
    fix fT
    assume a: "sp_start E (Translate tp tn av) f = None"
      "os_remove tn (snd (sp_run E (Translate tp tn av) f)) = Inr fT"
    with st eq have fs: "fsys w1 = fT"
      and no: "\<not> path_isfile fT ?outp
                 \<longrightarrow> r1 = Inl (Exception ''Translator failed to create dream.lock'')"
      and yes: "path_isfile fT ?outp
                      \<longrightarrow> (\<exists>c. stat fT ?outp = Some (File c)
                             \<and> (case json_loads E c of
                                   Parsed lock \<Rightarrow> r1 = Inr (?outp, lock)
                                 | Undecodable \<Rightarrow> r1 = Inl UnicodeDecodeError
                                 | Malformed \<Rightarrow> r1 = Inl JSONDecodeError))"
      by auto
    have "r1 \<noteq> Inl (Exception ''Translator failed to create dream.lock'')"
      if "path_isfile fT ?outp"
    proof -
      from yes that obtain c where
        "case json_loads E c of
           Parsed lock \<Rightarrow> r1 = Inr (?outp, lock)
         | Undecodable \<Rightarrow> r1 = Inl UnicodeDecodeError
         | Malformed \<Rightarrow> r1 = Inl JSONDecodeError" by auto
      then show ?thesis by (cases "json_loads E c") auto
    qed
    with fs no
    show "fsys w1 = fT
            \<and> (r1 = Inl (Exception ''Translator failed to create dream.lock'')
                  \<longleftrightarrow> \<not> path_isfile fT (resolve_output E a (fsys w)))
            \<and> ((\<exists>x. r1 = Inr x) \<longrightarrow> path_isfile fT (resolve_output E a (fsys w)))"
      by auto
  qed
  from translated have base: "is_eval ce" "is_build cb"
    "calls w1 = calls w @ [(ce, f0), (cb, f1), (?ct, f2)]"
    "fR = (if path_exists (fsys w) ?outp then (fsys w)(?outp := None) else fsys w)"
    "tmp = mkstemp E fR"
    "\<forall>p. p \<noteq> tmp \<longrightarrow> f0 p = fR p"
    "\<forall>p. p \<noteq> tmp \<longrightarrow> f1 p = snd (sp_run E ce f0) p"
    "\<forall>p. p \<noteq> ''translator'' \<longrightarrow> f2 p = snd (sp_run E cb f1) p"
    "f2 ''translator'' = None"
    by simp_all
  show ?thesis
  proof (rule that[of ce cb f0 f1 fR])
    show "is_eval ce" "is_build cb" by (rule base)+
    show "calls w1 = [(ce, f0), (cb, f1), (Translate tp tn av, f)]"
      using base(3) eq assms(2) by simp
    show "fR = (if path_exists (fsys w) ?outp then (fsys w)(?outp := None) else fsys w)"
      by (rule base(4))
    show "tn = mkstemp E fR" using base(5) eq by simp
    show "\<forall>p. p \<noteq> tn \<longrightarrow> f0 p = fR p" using base(6) eq by simp
    show "\<forall>p. p \<noteq> tn \<longrightarrow> f1 p = snd (sp_run E ce f0) p" using base(7) eq by simp
    show "\<forall>p. p \<noteq> ''translator'' \<longrightarrow> f p = snd (sp_run E cb f1) p" using base(8) eq by simp
    show "f ''translator'' = None" using base(9) eq by simp
  qed (rule 10 11 12)+
qed

lemma translate_call:
  assumes "translate E a w = (r, w')" "calls w = []"
    and "(Translate tp tn av, f) \<in> set (calls w')"
  obtains ce f0 cb f1 fR where
    "is_eval ce" "is_build cb"
    "(ce, f0) \<in> set (calls w')" "(cb, f1) \<in> set (calls w')"
    "fR = (if path_exists (fsys w) (resolve_output E a (fsys w))
           then (fsys w)(resolve_output E a (fsys w) := None) else fsys w)"
    "tn = mkstemp E fR"
    "\<forall>p. p \<noteq> tn \<longrightarrow> f0 p = fR p"
    "\<forall>p. p \<noteq> tn \<longrightarrow> f1 p = snd (sp_run E ce f0) p"
    "\<forall>p. p \<noteq> ''translator'' \<longrightarrow> f p = snd (sp_run E cb f1) p"
    "f ''translator'' = None"
    "sp_start E (Translate tp tn av) f \<noteq> None
       \<longrightarrow> (\<exists>e. r = Inl e \<and> (\<forall>m. e \<noteq> Exception m))"
    "\<forall>e. sp_start E (Translate tp tn av) f = None
          \<longrightarrow> os_remove tn (snd (sp_run E (Translate tp tn av) f)) = Inl e \<longrightarrow> r = Inl e"
    "\<forall>fT. sp_start E (Translate tp tn av) f = None
          \<longrightarrow> os_remove tn (snd (sp_run E (Translate tp tn av) f)) = Inr fT
          \<longrightarrow> (r = Inl (Exception ''Translator failed to create dream.lock'')
                  \<longleftrightarrow> \<not> path_isfile fT (resolve_output E a (fsys w)))"
proof -
  note goal = that
  have pl: thesis
    if pl: "produce_lock E a w = (r1, w1)"
      and mem: "(Translate tp tn av, f) \<in> set (calls w1)"
      and sub: "set (calls w1) \<subseteq> set (calls w')"
      and res: "\<forall>e. r1 = Inl e \<longrightarrow> r = Inl e"
               "\<forall>x. r1 = Inr x
                  \<longrightarrow> r \<noteq> Inl (Exception ''Translator failed to create dream.lock'')"
    for r1 w1
    using pl assms(2) mem
  proof (cases rule: produce_lock_translate_call)
    case (1 ce f0 cb f1 fR)
    have a: "sp_start E (Translate tp tn av) f \<noteq> None
       \<longrightarrow> (\<exists>e. r = Inl e \<and> (\<forall>m. e \<noteq> Exception m))"
      using 1(10) res(1) by auto
    have b: "\<forall>e. sp_start E (Translate tp tn av) f = None
          \<longrightarrow> os_remove tn (snd (sp_run E (Translate tp tn av) f)) = Inl e \<longrightarrow> r = Inl e"
      using 1(11) res(1) by auto
    have c: "\<forall>fT. sp_start E (Translate tp tn av) f = None
          \<longrightarrow> os_remove tn (snd (sp_run E (Translate tp tn av) f)) = Inr fT
          \<longrightarrow> (r = Inl (Exception ''Translator failed to create dream.lock'')
                  \<longleftrightarrow> \<not> path_isfile fT (resolve_output E a (fsys w)))"
    proof (intro allI impI)
      fix fT
      assume "sp_start E (Translate tp tn av) f = None"
        "os_remove tn (snd (sp_run E (Translate tp tn av) f)) = Inr fT"
      with 1(12) have
        "r1 = Inl (Exception ''Translator failed to create dream.lock'')
                  \<longleftrightarrow> \<not> path_isfile fT (resolve_output E a (fsys w))"
        "(\<exists>x. r1 = Inr x) \<longrightarrow> path_isfile fT (resolve_output E a (fsys w))"
        by auto
      with res show "r = Inl (Exception ''Translator failed to create dream.lock'')
                  \<longleftrightarrow> \<not> path_isfile fT (resolve_output E a (fsys w))"
        by (cases r1) auto
    qed
    have "(ce, f0) \<in> set (calls w')" "(cb, f1) \<in> set (calls w')"
      using 1(3) sub by auto
    then show ?thesis
      using 1(1,2,4,5,6,7,8,9) a b c by (intro goal[of ce cb f0 f1 fR])
  qed
  from assms(1) show thesis
  proof (cases rule: translate_split)
    case (no_lock e)
    show ?thesis
      by (rule pl[OF no_lock(1)]) (use assms(3) no_lock in auto)
  next
    case (plain outp lock w1)
    show ?thesis
      by (rule pl[OF plain(1)]) (use assms(3) plain in auto)
  next
    case (consolidated outp lock w1 r2 w2)
    have nofetch: "\<forall>(c, f)\<in>set (calls w1). \<not> is_fetch c"
      using produce_lock_calls[OF consolidated(1) assms(2)] .
    have cch: "(calls w2 = calls w1 \<or> (\<exists>cf fA. is_fetch cf \<and> calls w2 = calls w1 @ [(cf, fA)]))
        \<and> r \<noteq> Inl (Exception ''Translator failed to create dream.lock'')"
      using consolidated(3)
    proof (cases rule: calculate_combined_hash_run)
      case (before_A e)
      with consolidated(6) show ?thesis by auto
    next
      case (not_started lockA fA se)
      moreover have "is_fetch (NixBuildFetchSources (dream2nixSrc E) outp)" by simp
      moreover have "start_exn se \<noteq> Exception ''Translator failed to create dream.lock''"
        by (cases se) auto
      ultimately show ?thesis using consolidated(6) by auto
    next
      case (extraction_failed lockA fA)
      with consolidated(6) have "r = r2" by auto
      moreover have "is_fetch (NixBuildFetchSources (dream2nixSrc E) outp)" by simp
      ultimately show ?thesis using extraction_failed by auto
    next
      case (write_B_failed e lockA fA t h lockB)
      moreover have "is_fetch (NixBuildFetchSources (dream2nixSrc E) outp)" by simp
      ultimately show ?thesis using consolidated(6) by auto
    next
      case (finished lockA fA t h lockB)
      moreover have "is_fetch (NixBuildFetchSources (dream2nixSrc E) outp)" by simp
      ultimately show ?thesis using consolidated(6) by auto
    qed
    then have mem: "(Translate tp tn av, f) \<in> set (calls w1)"
      using assms(3) consolidated(4) by auto
    show ?thesis
      by (rule pl[OF consolidated(1) mem]) (use cch consolidated(4) in auto)
  qed
qed

text \<open>The result object of the translator is not used.\<close>


lemma run_other_result:
  "\<not> is_translate c \<Longrightarrow>
     run (E\<lparr>sp_run := (\<lambda>c g. if is_translate c then (P c g, snd (sp_run E c g)) else sp_run E c g)\<rparr>) c
       = run E c"
  by (simp add: run_def fun_eq_iff split: option.splits)

lemma run_translate_result:
  "bind (run (E\<lparr>sp_run := (\<lambda>c g. if is_translate c then (P c g, snd (sp_run E c g)) else sp_run E c g)\<rparr>)
           (Translate tp tn av)) (\<lambda>procTranslate. ret ())
     = bind (run E (Translate tp tn av)) (\<lambda>procTranslate. ret ())"
  by (simp add: run_def fun_eq_iff bind_apply prim_apply split: prod.splits option.splits)

lemma loads_bytes_other_result:
  "loads_bytes (E\<lparr>sp_run := (\<lambda>c g. if is_translate c then (P c g, snd (sp_run E c g)) else sp_run E c g)\<rparr>) = loads_bytes E"
proof (intro ext)
  fix b show "loads_bytes (E\<lparr>sp_run := (\<lambda>c g. if is_translate c then (P c g, snd (sp_run E c g)) else sp_run E c g)\<rparr>) b = loads_bytes E b"
    by (simp add: loads_bytes_def)
qed

lemma dump_tmp_other_result:
  "dump_tmp (E\<lparr>sp_run := (\<lambda>c g. if is_translate c then (P c g, snd (sp_run E c g)) else sp_run E c g)\<rparr>) = dump_tmp E"
  by (simp add: dump_tmp_def fun_eq_iff)

lemma dump_file_other_result:
  "dump_file (E\<lparr>sp_run := (\<lambda>c g. if is_translate c then (P c g, snd (sp_run E c g)) else sp_run E c g)\<rparr>) = dump_file E"
  by (simp add: dump_file_def fun_eq_iff)

lemma resolve_output_other_result:
  "resolve_output (E\<lparr>sp_run := (\<lambda>c g. if is_translate c then (P c g, snd (sp_run E c g)) else sp_run E c g)\<rparr>) = resolve_output E"
  by (simp add: resolve_output_def fun_eq_iff)

lemma load_file_other_result:
  "load_file (E\<lparr>sp_run := (\<lambda>c g. if is_translate c then (P c g, snd (sp_run E c g)) else sp_run E c g)\<rparr>) = load_file E"
  by (simp add: load_file_def fun_eq_iff)

lemma with_tempfile_other_result:
  "with_tempfile (E\<lparr>sp_run := (\<lambda>c g. if is_translate c then (P c g, snd (sp_run E c g)) else sp_run E c g)\<rparr>) = with_tempfile E"
  by (simp add: with_tempfile_def fun_eq_iff)

lemma select_translator_other_result:
  "select_translator (E\<lparr>sp_run := (\<lambda>c g. if is_translate c then (P c g, snd (sp_run E c g)) else sp_run E c g)\<rparr>)
     = select_translator E"
  by (simp add: select_translator_def fun_eq_iff run_other_result dump_tmp_other_result
      loads_bytes_other_result)

lemma build_translator_other_result:
  "build_translator (E\<lparr>sp_run := (\<lambda>c g. if is_translate c then (P c g, snd (sp_run E c g)) else sp_run E c g)\<rparr>)
     = build_translator E"
  by (simp add: build_translator_def fun_eq_iff run_other_result)

lemma execute_translator_other_result:
  "execute_translator (E\<lparr>sp_run := (\<lambda>c g. if is_translate c then (P c g, snd (sp_run E c g)) else sp_run E c g)\<rparr>)
     = execute_translator E"
  by (simp add: execute_translator_def fun_eq_iff run_translate_result)

lemma select_build_run_other_result:
  "select_build_run (E\<lparr>sp_run := (\<lambda>c g. if is_translate c then (P c g, snd (sp_run E c g)) else sp_run E c g)\<rparr>)
     = select_build_run E"
  by (simp add: select_build_run_def fun_eq_iff select_translator_other_result
      build_translator_other_result execute_translator_other_result)

lemma produce_lock_other_result:
  "produce_lock (E\<lparr>sp_run := (\<lambda>c g. if is_translate c then (P c g, snd (sp_run E c g)) else sp_run E c g)\<rparr>)
     = produce_lock E"
  by (simp add: produce_lock_def fun_eq_iff select_build_run_other_result
      with_tempfile_other_result resolve_output_other_result load_file_other_result)

lemma calculate_combined_hash_other_result:
  "calculate_combined_hash (E\<lparr>sp_run := (\<lambda>c g. if is_translate c then (P c g, snd (sp_run E c g)) else sp_run E c g)\<rparr>)
     = calculate_combined_hash E"
  by (simp add: calculate_combined_hash_def fun_eq_iff run_other_result dump_file_other_result)

lemma translate_other_result:
  "translate (E\<lparr>sp_run := (\<lambda>c g. if is_translate c then (P c g, snd (sp_run E c g)) else sp_run E c g)\<rparr>)
     = translate E"
  by (simp add: translate_def fun_eq_iff produce_lock_other_result
      calculate_combined_hash_other_result cong: if_cong)

subsection \<open>Exit codes\<close>


text \<open>
  Claim C5. A run that returns exits with 0; every run that does not exits with 1. In
  particular the exit code is 1 when an input path is missing, when the oracle was
  called and returned non-zero, when the build of the translator returned non-zero, when
  the translator left no file at the output path, and when the diagnostics of the
  build of the combined sources hold no hash token.
\<close>

theorem exit_codes:
  assumes "translate E a w = (r, w')" and "calls w = []"
  shows "(r = Inr () \<longrightarrow> exit_code r = 0) \<and> (r \<noteq> Inr () \<longrightarrow> exit_code r = 1)
    \<and> ((\<exists>p\<in>set (input a). \<not> path_exists (fsys w) p) \<longrightarrow> exit_code r = 1)
    \<and> ((\<exists>(c, f)\<in>set (calls w'). is_eval c \<and> returncode (fst (sp_run E c f)) \<noteq> 0)
          \<longrightarrow> exit_code r = 1)
    \<and> ((\<exists>(c, f)\<in>set (calls w'). is_build c \<and> returncode (fst (sp_run E c f)) \<noteq> 0)
          \<longrightarrow> exit_code r = 1)
    \<and> ((\<exists>(c, f)\<in>set (calls w'). is_translate c
            \<and> \<not> path_isfile (snd (sp_run E c f)) (resolve_output E a (fsys w)))
          \<longrightarrow> exit_code r = 1)
    \<and> ((\<exists>(c, f)\<in>set (calls w'). is_fetch c
            \<and> (\<exists>t. stderr (fst (sp_run E c f)) = Utf8 t \<and> re_search t = None))
          \<longrightarrow> exit_code r = 1)"
proof -
  have fail: "exit_code r = 1" if "r \<noteq> Inr ()"
  proof -
    from that obtain e where "r = Inl e" by (cases r) auto
    with assms(1) show ?thesis using translate_fatal by blast
  qed
  have missing: "r \<noteq> Inr ()" if "\<exists>p\<in>set (input a). \<not> path_exists (fsys w) p"
    using translate_missing_input[OF that assms(1)] by auto
  have ok: "(\<forall>(c, f)\<in>set (calls w'). is_eval c \<longrightarrow> returncode (fst (sp_run E c f)) = 0)
      \<and> (\<forall>(c, f)\<in>set (calls w'). is_build c \<longrightarrow> returncode (fst (sp_run E c f)) = 0)
      \<and> (\<forall>(c, f)\<in>set (calls w'). is_translate c
            \<longrightarrow> path_isfile (snd (sp_run E c f)) (resolve_output E a (fsys w)))
      \<and> (\<forall>(c, f)\<in>set (calls w'). is_fetch c
            \<longrightarrow> \<not> (\<exists>t. stderr (fst (sp_run E c f)) = Utf8 t \<and> re_search t = None))"
    if "r = Inr ()"
  proof -
    from assms(1) that have "translate E a w = (Inr (), w')" by simp
    then show ?thesis using assms(2)
    proof (cases rule: translate_success)
      case (1 ce f0 cb f1 tp tmp f2 cs)
      from 1(6) have isf: "path_isfile (snd (sp_run E (Translate tp tmp (argv E)) f2))
          (resolve_output E a (fsys w))" by (rule isfile_remove)
      from 1(7) show ?thesis
      proof
        assume "cs = []"
        with 1 isf show ?thesis by (cases ce; cases cb) auto
      next
        assume "\<exists>cf fA t h. cs = [(cf, fA)] \<and> is_fetch cf \<and> sp_start E cf fA = None
                   \<and> stderr (fst (sp_run E cf fA)) = Utf8 t \<and> re_search t = Some h"
        then obtain cf fA t h where "cs = [(cf, fA)]" "is_fetch cf"
          "stderr (fst (sp_run E cf fA)) = Utf8 t" "re_search t = Some h" by blast
        with 1 isf show ?thesis by (cases ce; cases cb; cases cf) auto
      qed
    qed
  qed
  show ?thesis
  proof (cases "r = Inr ()")
    case True
    with ok missing show ?thesis by fastforce
  next
    case False
    with fail show ?thesis by simp
  qed
qed

theorem exit_codes_witness:
  "exit_code (fst (translate (env_demo 0 ''x FOD_PATH=abc= y'') args_demo world_demo)) = 0
   \<and> exit_code (fst (translate (env_demo 2 ''x FOD_PATH=abc= y'') args_demo world_demo)) = 1
   \<and> exit_code (fst (translate (env_demo 0 ''x FOD_PATH=abc y'') args_demo world_demo)) = 1"
proof -
  have c: "calls world_demo = []" by (simp add: world_demo_def)
  have 1: "exit_code (fst (translate (env_demo 0 ''x FOD_PATH=abc= y'') args_demo world_demo)) = 0"
    using exit_codes[where E="env_demo 0 ''x FOD_PATH=abc= y''" and a=args_demo and w=world_demo, OF surjective_pairing c] demo_success
    by simp
  have "\<exists>(c, f)\<in>set (calls (snd (translate (env_demo 2 ''x FOD_PATH=abc= y'') args_demo world_demo))).
          is_eval c \<and> returncode (fst (sp_run (env_demo 2 ''x FOD_PATH=abc= y'') c f)) \<noteq> 0"
    by (simp add: run_defs demo_defs)
  then have 2: "exit_code (fst (translate (env_demo 2 ''x FOD_PATH=abc= y'') args_demo world_demo)) = 1"
    using exit_codes[where E="env_demo 2 ''x FOD_PATH=abc= y''" and a=args_demo and w=world_demo, OF surjective_pairing c] by blast
  have "\<exists>(c, f)\<in>set (calls (snd (translate (env_demo 0 ''x FOD_PATH=abc y'') args_demo world_demo))).
          is_fetch c \<and> (\<exists>t. stderr (fst (sp_run (env_demo 0 ''x FOD_PATH=abc y'') c f)) = Utf8 t
                            \<and> re_search t = None)"
    by (simp add: run_defs demo_defs)
  then have 3: "exit_code (fst (translate (env_demo 0 ''x FOD_PATH=abc y'') args_demo world_demo)) = 1"
    using exit_codes[where E="env_demo 0 ''x FOD_PATH=abc y''" and a=args_demo and w=world_demo, OF surjective_pairing c] by blast
  from 1 2 3 show ?thesis by blast
qed

subsection \<open>The output contract\<close>

text \<open>
  In a run that started the translator, what the translator left at the name of the
  argument file decides first: leaving the \<open>with\<close> block unlinks that name, and
  when the translator has removed it the run ends there with \<open>FileNotFoundError\<close>
  (with \<open>IsADirectoryError\<close> when a directory took its place). Otherwise the
  exception "Translator failed to create dream.lock" is raised exactly when, after the
  translator has run and the argument file is closed, no regular file is at the output
  path; it is raised in particular when the translator left no file there. The return
  code and the streams of the translator play no part: a translator that differs in them
  only gives the same run. The argument file is known by its name, which is where the
  open file is as long as the oracle leaves it in place.
\<close>

lemma demo_gone:
  "fst (translate env_gone args_demo world_demo) = Inl FileNotFoundError"
  by (simp add: run_defs demo_defs env_gone_def run_gone_def)

lemma demo_gone_calls:
  "map fst (calls (snd (translate env_gone args_demo world_demo)))
     = [NixEval ''/d2n'' ''/tmp/args'',
        NixBuildTranslator ''/d2n'' (JStr ''nodejs'') (JStr ''pure'') (JStr ''package-lock''),
        Translate ''translator'' ''/tmp/args'' [''translate'', ''pkg.json'']]"
  by (simp add: run_defs demo_defs env_gone_def run_gone_def)

lemma demo_gone_output:
  "\<not> path_isfile (fsys (snd (translate env_gone args_demo world_demo))) ''out''"
  by (simp add: run_defs demo_defs env_gone_def run_gone_def)

lemma demo_idle_calls:
  "map fst (calls (snd (translate env_idle args_demo world_demo)))
     = [NixEval ''/d2n'' ''/tmp/args'',
        NixBuildTranslator ''/d2n'' (JStr ''nodejs'') (JStr ''pure'') (JStr ''package-lock''),
        Translate ''translator'' ''/tmp/args'' [''translate'', ''pkg.json'']]"
  by (simp add: run_defs demo_defs env_idle_def run_idle_def)

lemma demo_idle_translator:
  "\<forall>(c, g)\<in>set (calls (snd (translate env_idle args_demo world_demo))).
      is_translate c \<longrightarrow> g ''/tmp/args'' \<noteq> None \<and> g ''/tmp/args'' \<noteq> Some Dir \<and> g ''out'' = None"
  by (simp add: run_defs demo_defs env_idle_def run_idle_def)

lemma run_idle_eval: "is_eval c \<Longrightarrow> snd (run_idle c g) = g"
  by (cases c) (simp_all add: run_idle_def run_demo_def)

text \<open>
  Claim C6, as stated, fails on a translator that writes nothing and removes its
  argument file: the translator was executed, no file is at the output path, and the
  run ends with \<open>FileNotFoundError\<close>, not with "Translator failed to create
  dream.lock".
\<close>

theorem missing_output_without_contract_violation:
  "map fst (calls (snd (translate env_gone args_demo world_demo)))
     = [NixEval ''/d2n'' ''/tmp/args'',
        NixBuildTranslator ''/d2n'' (JStr ''nodejs'') (JStr ''pure'') (JStr ''package-lock''),
        Translate ''translator'' ''/tmp/args'' [''translate'', ''pkg.json'']]
   \<and> \<not> path_isfile (fsys (snd (translate env_gone args_demo world_demo))) ''out''
   \<and> fst (translate env_gone args_demo world_demo) = Inl FileNotFoundError
   \<and> fst (translate env_gone args_demo world_demo)
        \<noteq> Inl (Exception ''Translator failed to create dream.lock'')"
  using demo_gone demo_gone_calls demo_gone_output by simp

text \<open>
  Claim C6, amended. In a run that started the translator, with an oracle that left the
  argument file in place: when the translator has removed the argument file, the run
  ends with \<open>FileNotFoundError\<close> (\<open>IsADirectoryError\<close> when a directory is at
  its name); otherwise the exception "Translator failed to create dream.lock" is raised
  exactly when no regular file is at the output path once the translator has run and the
  argument file is unlinked, and in particular when the translator left no file there.
  The return code and the streams of the translator play no part: a translator that
  differs in them only gives the same run.
\<close>

theorem output_contract:
  assumes "translate E a w = (r, w')" and "calls w = []"
    and "(Translate tp tn av, f) \<in> set (calls w')"
    and "sp_start E (Translate tp tn av) f = None"
    and "\<forall>(c, g)\<in>set (calls w'). is_eval c \<longrightarrow> snd (sp_run E c g) tn = g tn"
  shows "(snd (sp_run E (Translate tp tn av) f) tn = None \<longrightarrow> r = Inl FileNotFoundError)
       \<and> (snd (sp_run E (Translate tp tn av) f) tn = Some Dir \<longrightarrow> r = Inl IsADirectoryError)
       \<and> (snd (sp_run E (Translate tp tn av) f) tn \<noteq> None
            \<and> snd (sp_run E (Translate tp tn av) f) tn \<noteq> Some Dir
          \<longrightarrow> (r = Inl (Exception ''Translator failed to create dream.lock'')
                 \<longleftrightarrow> \<not> path_isfile ((snd (sp_run E (Translate tp tn av) f))(tn := None))
                         (resolve_output E a (fsys w)))
            \<and> (\<not> path_isfile (snd (sp_run E (Translate tp tn av) f)) (resolve_output E a (fsys w))
                 \<longrightarrow> r = Inl (Exception ''Translator failed to create dream.lock'')))
       \<and> translate (E\<lparr>sp_run := (\<lambda>c g. if is_translate c then (P c g, snd (sp_run E c g))
                                          else sp_run E c g)\<rparr>) a w
           = translate E a w"
  using assms(1,2,3)
proof (cases rule: translate_call)
  case (1 ce f0 cb f1 fR)
  let ?fT0 = "snd (sp_run E (Translate tp tn av) f)"
  let ?outp = "resolve_output E a (fsys w)"
  have gone: "r = Inl FileNotFoundError" if "?fT0 tn = None"
  proof -
    from that have "os_remove tn ?fT0 = Inl FileNotFoundError" by (simp add: os_remove_def)
    with 1(12) assms(4) show ?thesis by simp
  qed
  have dir: "r = Inl IsADirectoryError" if "?fT0 tn = Some Dir"
  proof -
    from that have "os_remove tn ?fT0 = Inl IsADirectoryError" by (simp add: os_remove_def)
    with 1(12) assms(4) show ?thesis by simp
  qed
  have there: "r = Inl (Exception ''Translator failed to create dream.lock'')
                 \<longleftrightarrow> \<not> path_isfile (?fT0(tn := None)) ?outp"
    if "?fT0 tn \<noteq> None" "?fT0 tn \<noteq> Some Dir"
  proof -
    from that have "os_remove tn ?fT0 = Inr (?fT0(tn := None))"
      by (auto simp: os_remove_def split: option.splits node.splits)
    with 1(13) assms(4) show ?thesis by simp
  qed
  have left: "\<not> path_isfile (?fT0(tn := None)) ?outp" if "\<not> path_isfile ?fT0 ?outp"
    using that isfile_remove[of ?fT0 tn ?outp] by auto
  from gone dir there left show ?thesis
    by (simp add: translate_other_result)
qed

theorem output_contract_witness:
  "fst (translate env_idle args_demo world_demo)
     = Inl (Exception ''Translator failed to create dream.lock'')"
proof -
  let ?E = "env_idle"
  let ?c = "Translate ''translator'' ''/tmp/args'' [''translate'', ''pkg.json'']"
  let ?w' = "snd (translate ?E args_demo world_demo)"
  have outp: "resolve_output ?E args_demo (fsys world_demo) = ''out''"
    by (simp add: run_defs demo_defs env_idle_def)
  have "?c \<in> set (map fst (calls ?w'))"
    unfolding demo_idle_calls by simp
  from in_map_fst[OF this]
  obtain f where f: "(?c, f) \<in> set (calls ?w')" ..
  with demo_idle_translator have ff: "f ''/tmp/args'' \<noteq> None" "f ''/tmp/args'' \<noteq> Some Dir"
    "f ''out'' = None" by auto
  have run: "snd (sp_run ?E ?c f) = f" by (simp add: env_idle_def env_demo_def run_idle_def)
  have 1: "calls world_demo = []" by (simp add: world_demo_def)
  have 2: "sp_start ?E ?c f = None" by (simp add: env_idle_def env_demo_def)
  have 3: "\<forall>(c, g)\<in>set (calls ?w'). is_eval c
              \<longrightarrow> snd (sp_run ?E c g) ''/tmp/args'' = g ''/tmp/args''"
    by (auto simp: env_idle_def env_demo_def run_idle_eval)
  have 4: "\<not> path_isfile (snd (sp_run ?E ?c f)) (resolve_output ?E args_demo (fsys world_demo))"
    unfolding outp run using ff(3) by (simp add: path_isfile_def stat_absent)
  from output_contract[where E="?E" and a=args_demo and w=world_demo
        and P="\<lambda>c g. \<lparr>returncode = 0, stdout = Utf8 [], stderr = Utf8 []\<rparr>",
        OF surjective_pairing 1 f 2 3]
  have "snd (sp_run ?E ?c f) ''/tmp/args'' \<noteq> None
            \<and> snd (sp_run ?E ?c f) ''/tmp/args'' \<noteq> Some Dir
          \<longrightarrow> (\<not> path_isfile (snd (sp_run ?E ?c f)) (resolve_output ?E args_demo (fsys world_demo))
                 \<longrightarrow> fst (translate ?E args_demo world_demo)
                       = Inl (Exception ''Translator failed to create dream.lock''))"
    by (elim conjE) simp
  with 4 ff run show ?thesis by simp
qed
subsection \<open>Stale output\<close>

text \<open>
  Claim C8. When something exists at the resolved output path at the start, then in
  every run that reaches the translator, the translator starts on a file system with
  nothing at that path, provided the transient argument file has another name and the
  oracle and the build do not create the path.
\<close>

theorem stale_output_removed:
  assumes "translate E a w = (r, w')" and "calls w = []"
    and "path_exists (fsys w) (resolve_output E a (fsys w))"
    and "(Translate tp tn av, f) \<in> set (calls w')"
    and "tn \<noteq> resolve_output E a (fsys w)"
    and "\<forall>(c, g)\<in>set (calls w'). (is_eval c \<or> is_build c)
            \<longrightarrow> g (resolve_output E a (fsys w)) = None
            \<longrightarrow> snd (sp_run E c g) (resolve_output E a (fsys w)) = None"
  shows "f (resolve_output E a (fsys w)) = None
       \<and> \<not> path_exists f (resolve_output E a (fsys w))"
  using assms(1,2,4)
proof (cases rule: translate_call)
  case (1 ce f0 cb f1 fR)
  let ?outp = "resolve_output E a (fsys w)"
  have frame: "snd (sp_run E c g) ?outp = None"
    if "(c, g) \<in> set (calls w')" "is_eval c \<or> is_build c" "g ?outp = None" for c g
    using assms(6) that by fastforce
  from 1(5) assms(3) have "fR ?outp = None" by simp
  with 1(7) assms(5) have "f0 ?outp = None" by simp
  with 1(1,3) have "snd (sp_run E ce f0) ?outp = None" by (intro frame) auto
  with 1(8) assms(5) have "f1 ?outp = None" by simp
  with 1(2,4) have "snd (sp_run E cb f1) ?outp = None" by (intro frame) auto
  with 1(9,10) have "f ?outp = None" by (cases "?outp = ''translator''") auto
  then show ?thesis by (simp add: absent_not_exists)
qed

theorem stale_output_removed_witness:
  "\<exists>f. (Translate ''translator'' ''/tmp/args'' [''translate'', ''pkg.json''], f)
         \<in> set (calls (snd (translate (env_demo 0 ''x FOD_PATH=abc= y'') args_demo world_stale)))
       \<and> f ''out'' = None \<and> fsys world_stale ''out'' = Some (File ''OLD'')"
proof -
  let ?E = "env_demo 0 ''x FOD_PATH=abc= y''"
  let ?w' = "snd (translate ?E args_demo world_stale)"
  have outp: "resolve_output ?E args_demo (fsys world_stale) = ''out''"
    by (simp add: run_defs demo_defs world_stale_def)
  have "Translate ''translator'' ''/tmp/args'' [''translate'', ''pkg.json'']
          \<in> set (map fst (calls ?w'))"
    unfolding demo_calls by simp
  from in_map_fst[OF this]
  obtain f where f: "(Translate ''translator'' ''/tmp/args'' [''translate'', ''pkg.json''], f)
          \<in> set (calls ?w')" ..
  have 1: "calls world_stale = []" by (simp add: world_stale_def world_demo_def)
  have 2: "path_exists (fsys world_stale) (resolve_output ?E args_demo (fsys world_stale))"
    unfolding outp by (simp add: run_defs demo_defs world_stale_def)
  have 3: "''/tmp/args'' \<noteq> resolve_output ?E args_demo (fsys world_stale)"
    unfolding outp by simp
  have 4: "\<forall>(c, g)\<in>set (calls ?w'). (is_eval c \<or> is_build c)
            \<longrightarrow> g (resolve_output ?E args_demo (fsys world_stale)) = None
            \<longrightarrow> snd (sp_run ?E c g) (resolve_output ?E args_demo (fsys world_stale)) = None"
  proof (intro ballI, clarify)
    fix c and g :: fs assume "is_eval c \<or> is_build c"
      and "g (resolve_output ?E args_demo (fsys world_stale)) = None"
    then have "snd (run_demo 0 ''x FOD_PATH=abc= y'' c g) ''out'' = None"
      unfolding outp by (rule run_demo_frame)
    then show "snd (sp_run ?E c g) (resolve_output ?E args_demo (fsys world_stale)) = None"
      unfolding outp by (simp add: env_demo_def)
  qed
  have "f (resolve_output ?E args_demo (fsys world_stale)) = None"
    using stale_output_removed[where E="?E" and a=args_demo and w=world_stale,
        OF surjective_pairing 1 2 f 3 4] by (rule conjunct1)
  then have "f ''out'' = None" unfolding outp .
  moreover have "fsys world_stale ''out'' = Some (File ''OLD'')" by (simp add: world_stale_def)
  ultimately show ?thesis using f by (intro exI[of _ f]) simp
qed

subsection \<open>A failed consolidation\<close>


lemma strip_and_reset_Inr:
  "strip_and_reset lock = Inr lockA \<longleftrightarrow>
     (\<exists>d srcs srcs' g. lock = JObj d \<and> dict_get d ''sources'' = Some (JObj srcs)
        \<and> dict_get d ''generic'' = Some (JObj g)
        \<and> strip_sources srcs = Inr srcs'
        \<and> lockA = JObj (dict_set ''generic'' (JObj (dict_set ''sourcesCombinedHash'' (JStr []) g))
                      (dict_set ''sources'' (JObj srcs') d)))"
proof
  assume "strip_and_reset lock = Inr lockA"
  then obtain l1 where l1: "strip_hashes_from_lock lock = Inr l1"
    and sc: "set_combined_hash l1 [] = Inr lockA"
    by (auto simp: strip_and_reset_def split: sum.splits)
  from l1 obtain d srcs srcs' where d: "lock = JObj d" "dict_get d ''sources'' = Some (JObj srcs)"
    "strip_sources srcs = Inr srcs'"
    and l1': "l1 = JObj (dict_set ''sources'' (JObj srcs') d)"
    unfolding strip_hashes_from_lock_Inr by blast
  from sc obtain d1 g where d1: "l1 = JObj d1" "dict_get d1 ''generic'' = Some (JObj g)"
    and la: "lockA = JObj (dict_set ''generic''
                (JObj (dict_set ''sourcesCombinedHash'' (JStr []) g)) d1)"
    unfolding set_combined_hash_Inr by blast
  from d1 l1' have e: "d1 = dict_set ''sources'' (JObj srcs') d" by simp
  with d1(2) have "dict_get d ''generic'' = Some (JObj g)" by (simp add: dict_get_set)
  with d la e show "\<exists>d srcs srcs' g. lock = JObj d \<and> dict_get d ''sources'' = Some (JObj srcs)
        \<and> dict_get d ''generic'' = Some (JObj g)
        \<and> strip_sources srcs = Inr srcs'
        \<and> lockA = JObj (dict_set ''generic'' (JObj (dict_set ''sourcesCombinedHash'' (JStr []) g))
                      (dict_set ''sources'' (JObj srcs') d))" by blast
next
  assume "\<exists>d srcs srcs' g. lock = JObj d \<and> dict_get d ''sources'' = Some (JObj srcs)
        \<and> dict_get d ''generic'' = Some (JObj g)
        \<and> strip_sources srcs = Inr srcs'
        \<and> lockA = JObj (dict_set ''generic'' (JObj (dict_set ''sourcesCombinedHash'' (JStr []) g))
                      (dict_set ''sources'' (JObj srcs') d))"
  then obtain d srcs srcs' g where d: "lock = JObj d" "dict_get d ''sources'' = Some (JObj srcs)"
    "dict_get d ''generic'' = Some (JObj g)" "strip_sources srcs = Inr srcs'"
    "lockA = JObj (dict_set ''generic'' (JObj (dict_set ''sourcesCombinedHash'' (JStr []) g))
                      (dict_set ''sources'' (JObj srcs') d))" by blast
  have st: "strip_hashes_from_lock lock = Inr (JObj (dict_set ''sources'' (JObj srcs') d))"
    unfolding strip_hashes_from_lock_Inr using d by blast
  have "dict_get (dict_set ''sources'' (JObj srcs') d) ''generic'' = Some (JObj g)"
    using d(3) by (simp add: dict_get_set)
  then have "set_combined_hash (JObj (dict_set ''sources'' (JObj srcs') d)) [] = Inr lockA"
    by (simp add: set_combined_hash_def d(5))
  with st show "strip_and_reset lock = Inr lockA" by (simp add: strip_and_reset_def)
qed

lemma produce_lock_success:
  assumes "produce_lock E a w = (Inr (outp, lock), w1)" "calls w = []"
  obtains ce f0 cb f1 tp tn ft c0 where
    "calls w1 = [(ce, f0), (cb, f1), (Translate tp tn (argv E), ft)]"
    "outp = resolve_output E a (fsys w)"
    "sp_start E (Translate tp tn (argv E)) ft = None"
    "fsys w1 = (snd (sp_run E (Translate tp tn (argv E)) ft))(tn := None)"
    "stat (fsys w1) outp = Some (File c0)" "json_loads E c0 = Parsed lock"
proof -
  define r :: "exn + path \<times> json" where "r = Inr (outp, lock)"
  from assms(1) have "produce_lock E a w = (r, w1)" by (simp add: r_def)
  then show thesis
  proof (cases rule: produce_lock_run)
    case (early e)
    then show ?thesis by (simp add: r_def)
  next
    case (eval_stopped e ce f0)
    then show ?thesis by (simp add: r_def)
  next
    case (build_stopped e ce f0 cb f1)
    then show ?thesis by (simp add: r_def)
  next
    case (translated ce f0 cb f1 tp tmp f2 fR)
    let ?ct = "Translate tp tmp (argv E)"
    let ?outp = "resolve_output E a (fsys w)"
    from translated have cs: "calls w1 = calls w @ [(ce, f0), (cb, f1), (?ct, f2)]" by simp
    from translated have
      ns: "sp_start E ?ct f2 \<noteq> None
             \<longrightarrow> (\<exists>e. r = Inl e \<and> exit_code (Inl e) = 1 \<and> (\<forall>m. e \<noteq> Exception m))"
      by (elim conjE) assumption
    from translated have
      st: "sp_start E ?ct f2 = None \<longrightarrow>
              (\<forall>e. os_remove tmp (snd (sp_run E ?ct f2)) = Inl e
                 \<longrightarrow> r = Inl e \<and> fsys w1 = snd (sp_run E ?ct f2))
            \<and> (\<forall>fT. os_remove tmp (snd (sp_run E ?ct f2)) = Inr fT
                 \<longrightarrow> fsys w1 = fT
                   \<and> (\<not> path_isfile fT ?outp
                        \<longrightarrow> r = Inl (Exception ''Translator failed to create dream.lock''))
                   \<and> (path_isfile fT ?outp
                        \<longrightarrow> (\<exists>c. stat fT ?outp = Some (File c)
                               \<and> (case json_loads E c of
                                     Parsed lock \<Rightarrow> r = Inr (?outp, lock)
                                   | Undecodable \<Rightarrow> r = Inl UnicodeDecodeError
                                   | Malformed \<Rightarrow> r = Inl JSONDecodeError))))"
      by (elim conjE) assumption
    from ns have s: "sp_start E ?ct f2 = None" by (cases "sp_start E ?ct f2") (auto simp: r_def)
    with st obtain fT where fT: "os_remove tmp (snd (sp_run E ?ct f2)) = Inr fT"
      by (cases "os_remove tmp (snd (sp_run E ?ct f2))") (auto simp: r_def)
    from os_remove_Inr[OF fT] have fT': "fT = (snd (sp_run E ?ct f2))(tmp := None)" .
    from st s fT have fs: "fsys w1 = fT" by simp
    from st s fT have isf: "path_isfile fT ?outp"
      by (cases "path_isfile fT ?outp") (auto simp: r_def)
    with st s fT obtain c where c: "stat fT ?outp = Some (File c)"
      "case json_loads E c of
         Parsed lock \<Rightarrow> r = Inr (?outp, lock)
       | Undecodable \<Rightarrow> r = Inl UnicodeDecodeError
       | Malformed \<Rightarrow> r = Inl JSONDecodeError" by auto
    from c(2) have p: "json_loads E c = Parsed lock" "outp = ?outp"
      by (cases "json_loads E c"; simp add: r_def)+
    show ?thesis
    proof (rule that[of ce f0 cb f1 tp tmp f2 c])
      show "calls w1 = [(ce, f0), (cb, f1), (?ct, f2)]" using cs assms(2) by simp
      show "outp = ?outp" by (rule p(2))
      show "sp_start E ?ct f2 = None" by (rule s)
      show "fsys w1 = (snd (sp_run E ?ct f2))(tmp := None)" using fs fT' by simp
      show "stat (fsys w1) outp = Some (File c)" using c(1) fs p(2) by simp
      show "json_loads E c = Parsed lock" by (rule p(1))
    qed
  qed
qed

text \<open>
  Claim C1. Take a run that fails although the build of the combined sources was
  called, that is, after the stripped lock was written (checkpoint A), and suppose that
  this build, if it could be started, leaves the file at the output path as it is. Then
  the combined hash was requested; the failure is the one of the hash extraction (or of
  starting the build); the lock that was stripped is the one \<open>json.load\<close> gave for
  the file the translator left at the output path; the file system the build was called
  on is the one the write of checkpoint A produced, with the stripped lock at the output
  path; and at the end the output path holds what it held then. The stripped lock is
  the translator's lock with the same source ids, each entry without its key
  \<open>hash\<close> and otherwise as it was, and with \<open>generic.sourcesCombinedHash\<close>
  set to the empty string. Nothing is rolled back.
\<close>

theorem failed_consolidation_stays_at_checkpoint_A:
  assumes "translate E a w = (Inl e, w')" and "calls w = []"
    and "(c, f) \<in> set (calls w')" and "is_fetch c"
    and "sp_start E c f = None
           \<longrightarrow> stat (snd (sp_run E c f)) (resolve_output E a (fsys w))
                 = stat f (resolve_output E a (fsys w))"
  shows "combined a
     \<and> (e = UnicodeDecodeError \<or> e = Exception ''Could not find FOD hash in FOD log''
          \<or> (\<exists>se. sp_start E c f = Some se \<and> e = start_exn se))
     \<and> stat (fsys w') (resolve_output E a (fsys w)) = stat f (resolve_output E a (fsys w))
     \<and> (\<exists>tp tn av ft c0 lock lockA d srcs srcs' g.
          (Translate tp tn av, ft) \<in> set (calls w')
          \<and> stat ((snd (sp_run E (Translate tp tn av) ft))(tn := None)) (resolve_output E a (fsys w))
               = Some (File c0)
          \<and> json_loads E c0 = Parsed lock
          \<and> strip_and_reset lock = Inr lockA
          \<and> open_write (resolve_output E a (fsys w)) (json_dumps E lockA)
               ((snd (sp_run E (Translate tp tn av) ft))(tn := None)) = Inr f
          \<and> stat f (resolve_output E a (fsys w)) = Some (File (json_dumps E lockA))
          \<and> lock = JObj d \<and> dict_get d ''sources'' = Some (JObj srcs)
          \<and> dict_get d ''generic'' = Some (JObj g)
          \<and> list_all2 (\<lambda>(sid, s) (sid', s'). sid' = sid \<and>
                (\<exists>sd. s = JObj sd \<and> ''hash'' \<in> set (dict_keys sd)
                   \<and> s' = JObj (filter (\<lambda>(k, v). k \<noteq> ''hash'') sd))) srcs srcs'
          \<and> (\<forall>(sid, s)\<in>set srcs'. \<not> has_hash s)
          \<and> lockA = JObj (dict_set ''generic'' (JObj (dict_set ''sourcesCombinedHash'' (JStr []) g))
                        (dict_set ''sources'' (JObj srcs') d)))"
  using assms(1)
proof (cases rule: translate_split)
  case (no_lock e')
  from produce_lock_calls[OF no_lock(1) assms(2)] assms(3,4) show ?thesis by auto
next
  case (plain outp lock w1)
  then show ?thesis by simp
next
  case (consolidated outp lock w1 r2 w2)
  let ?outp = "resolve_output E a (fsys w)"
  from consolidated(1) assms(2) obtain ce f0 cb f1 tp tn ft c0 where
    pl: "calls w1 = [(ce, f0), (cb, f1), (Translate tp tn (argv E), ft)]"
      "outp = ?outp"
      "fsys w1 = (snd (sp_run E (Translate tp tn (argv E)) ft))(tn := None)"
      "stat (fsys w1) outp = Some (File c0)" "json_loads E c0 = Parsed lock"
    by (rule produce_lock_success)
  have nofetch: "\<forall>(c, f)\<in>set (calls w1). \<not> is_fetch c"
    using produce_lock_calls[OF consolidated(1) assms(2)] .
  have tr: "(Translate tp tn (argv E), ft) \<in> set (calls w')"
    if "calls w2 = calls w1 @ cs" for cs
    using that pl(1) consolidated(4) by simp
  have main: ?thesis
    if sr: "strip_and_reset lock = Inr lockA"
      and ow: "open_write outp (json_dumps E lockA) (fsys w1) = Inr fA"
      and cs: "calls w2 = calls w1 @ [(NixBuildFetchSources (dream2nixSrc E) outp, fA)]"
      and e: "e = UnicodeDecodeError \<or> e = Exception ''Could not find FOD hash in FOD log''
          \<or> (\<exists>se. sp_start E c f = Some se \<and> e = start_exn se)"
      and fin: "stat (fsys w') ?outp = stat fA ?outp"
    for lockA fA
  proof -
    from cs nofetch consolidated(4) assms(3,4) have cf: "f = fA" by auto
    from ow have sA: "stat fA outp = Some (File (json_dumps E lockA))" by (rule open_write_stat)
    from sr obtain d srcs srcs' g where x: "lock = JObj d"
      "dict_get d ''sources'' = Some (JObj srcs)" "dict_get d ''generic'' = Some (JObj g)"
      "strip_sources srcs = Inr srcs'"
      "lockA = JObj (dict_set ''generic'' (JObj (dict_set ''sourcesCombinedHash'' (JStr []) g))
                        (dict_set ''sources'' (JObj srcs') d))"
      unfolding strip_and_reset_Inr by blast
    from x(4) have la: "list_all2 (\<lambda>(sid, s) (sid', s'). sid' = sid \<and>
                (\<exists>sd. s = JObj sd \<and> ''hash'' \<in> set (dict_keys sd)
                   \<and> s' = JObj (filter (\<lambda>(k, v). k \<noteq> ''hash'') sd))) srcs srcs'"
      unfolding strip_sources_Inr .
    then have nh: "\<forall>(sid, s)\<in>set srcs'. \<not> has_hash s" by (rule list_all2_strip_props(3))
    have ex: "\<exists>tp tn av ft c0 lock lockA d srcs srcs' g.
          (Translate tp tn av, ft) \<in> set (calls w')
          \<and> stat ((snd (sp_run E (Translate tp tn av) ft))(tn := None)) ?outp = Some (File c0)
          \<and> json_loads E c0 = Parsed lock
          \<and> strip_and_reset lock = Inr lockA
          \<and> open_write ?outp (json_dumps E lockA)
               ((snd (sp_run E (Translate tp tn av) ft))(tn := None)) = Inr f
          \<and> stat f ?outp = Some (File (json_dumps E lockA))
          \<and> lock = JObj d \<and> dict_get d ''sources'' = Some (JObj srcs)
          \<and> dict_get d ''generic'' = Some (JObj g)
          \<and> list_all2 (\<lambda>(sid, s) (sid', s'). sid' = sid \<and>
                (\<exists>sd. s = JObj sd \<and> ''hash'' \<in> set (dict_keys sd)
                   \<and> s' = JObj (filter (\<lambda>(k, v). k \<noteq> ''hash'') sd))) srcs srcs'
          \<and> (\<forall>(sid, s)\<in>set srcs'. \<not> has_hash s)
          \<and> lockA = JObj (dict_set ''generic'' (JObj (dict_set ''sourcesCombinedHash'' (JStr []) g))
                        (dict_set ''sources'' (JObj srcs') d))"
      apply (rule exI[of _ tp], rule exI[of _ tn], rule exI[of _ "argv E"], rule exI[of _ ft],
             rule exI[of _ c0], rule exI[of _ lock], rule exI[of _ lockA], rule exI[of _ d],
             rule exI[of _ srcs], rule exI[of _ srcs'], rule exI[of _ g])
      using tr[OF cs] pl(2,3,4,5) sr ow sA cf x(1,2,3,5) la nh
      apply (intro conjI)
      apply simp_all
      done
    from consolidated(2) e fin cf ex show ?thesis by simp
  qed
  from consolidated(3) show ?thesis
  proof (cases rule: calculate_combined_hash_run)
    case (before_A e')
    with nofetch consolidated(4) assms(3,4) show ?thesis by auto
  next
    case (not_started lockA fA se)
    let ?cf = "NixBuildFetchSources (dream2nixSrc E) outp"
    from not_started have cs: "calls w2 = calls w1 @ [(?cf, fA)]" by simp
    with nofetch consolidated(4) assms(3,4) have cf: "c = ?cf" "f = fA" by auto
    from not_started consolidated(6) have "e = start_exn se" by auto
    with not_started cf have e: "e = UnicodeDecodeError \<or> e = Exception ''Could not find FOD hash in FOD log''
          \<or> (\<exists>se. sp_start E c f = Some se \<and> e = start_exn se)" by simp
    from not_started consolidated(5) have fin: "stat (fsys w') ?outp = stat fA ?outp" by simp
    from not_started have "strip_and_reset lock = Inr lockA"
      "open_write outp (json_dumps E lockA) (fsys w1) = Inr fA" by simp_all
    then show ?thesis using cs e fin by (rule main)
  next
    case (extraction_failed lockA fA)
    let ?cf = "NixBuildFetchSources (dream2nixSrc E) outp"
    from extraction_failed have cs: "calls w2 = calls w1 @ [(?cf, fA)]" by simp
    with nofetch consolidated(4) assms(3,4) have cf: "c = ?cf" "f = fA" by auto
    from extraction_failed consolidated(6)
    have e: "e = UnicodeDecodeError \<or> e = Exception ''Could not find FOD hash in FOD log''
          \<or> (\<exists>se. sp_start E c f = Some se \<and> e = start_exn se)" by auto
    from extraction_failed cf assms(5) consolidated(5)
    have fin: "stat (fsys w') ?outp = stat fA ?outp" by simp
    from extraction_failed have "strip_and_reset lock = Inr lockA"
      "open_write outp (json_dumps E lockA) (fsys w1) = Inr fA" by simp_all
    then show ?thesis using cs e fin by (rule main)
  next
    case (write_B_failed e' lockA fA t h lockB)
    with nofetch consolidated(4) assms(3,4)
    have cf: "c = NixBuildFetchSources (dream2nixSrc E) outp" "f = fA" by auto
    from write_B_failed have "open_write outp (json_dumps E lockA) (fsys w1) = Inr fA" by simp
    then have "stat fA outp = Some (File (json_dumps E lockA))" by (rule open_write_stat)
    with assms(5) cf pl(2) write_B_failed
    have "stat (fsys w2) outp = Some (File (json_dumps E lockA))" by simp
    from stat_File_open_write[OF this, of "json_dumps E lockB"] write_B_failed
    show ?thesis by auto
  next
    case (finished lockA fA t h lockB)
    with consolidated(6) show ?thesis by simp
  qed
qed

theorem failed_consolidation_stays_at_checkpoint_A_witness:
  "fst (translate (env_demo 0 ''x FOD_PATH=abc y'') args_demo world_stale)
     = Inl (Exception ''Could not find FOD hash in FOD log'')
   \<and> stat (fsys (snd (translate (env_demo 0 ''x FOD_PATH=abc y'') args_demo world_stale))) ''out''
       = Some (File (dumps_demo lock_demo_A))
   \<and> dumps_demo lock_demo_A \<noteq> dumps_demo lock_demo
   \<and> dumps_demo lock_demo_A \<noteq> dumps_demo lock_demo_B"
proof -
  let ?E = "env_demo 0 ''x FOD_PATH=abc y''"
  let ?c = "NixBuildFetchSources ''/d2n'' ''out''"
  let ?w' = "snd (translate ?E args_demo world_stale)"
  have outp: "resolve_output ?E args_demo (fsys world_stale) = ''out''"
    by (simp add: run_defs demo_defs world_stale_def)
  have r: "fst (translate ?E args_demo world_stale)
             = Inl (Exception ''Could not find FOD hash in FOD log'')"
    by (simp add: run_defs demo_defs world_stale_def)
  then have 0: "translate ?E args_demo world_stale
      = (Inl (Exception ''Could not find FOD hash in FOD log''), ?w')"
    by (metis surjective_pairing)
  have 1: "calls world_stale = []" by (simp add: world_stale_def world_demo_def)
  have cs: "map fst (calls ?w')
     = [NixEval ''/d2n'' ''/tmp/args'',
        NixBuildTranslator ''/d2n'' (JStr ''nodejs'') (JStr ''pure'') (JStr ''package-lock''),
        Translate ''translator'' ''/tmp/args'' [''translate'', ''pkg.json''],
        NixBuildFetchSources ''/d2n'' ''out'']"
    by (simp add: run_defs demo_defs world_stale_def)
  then have "?c \<in> set (map fst (calls ?w'))" by simp
  from in_map_fst[OF this]
  obtain f where f: "(?c, f) \<in> set (calls ?w')" ..
  have 3: "is_fetch ?c" by simp
  have 4: "sp_start ?E ?c f = None
           \<longrightarrow> stat (snd (sp_run ?E ?c f)) (resolve_output ?E args_demo (fsys world_stale))
                 = stat f (resolve_output ?E args_demo (fsys world_stale))"
    by (simp add: env_demo_def run_demo_def)
  note th = failed_consolidation_stays_at_checkpoint_A[OF 0 1 f 3 4, unfolded outp]
  from th have fin: "stat (fsys ?w') ''out'' = stat f ''out''" by (elim conjE)
  from th have "\<exists>tp tn av ft c0 lock lockA.
          (Translate tp tn av, ft) \<in> set (calls ?w')
          \<and> stat ((snd (sp_run ?E (Translate tp tn av) ft))(tn := None)) ''out'' = Some (File c0)
          \<and> json_loads ?E c0 = Parsed lock
          \<and> strip_and_reset lock = Inr lockA
          \<and> stat f ''out'' = Some (File (json_dumps ?E lockA))"
    by (elim conjE exE) (intro exI conjI, assumption+)
  then obtain tp tn av ft c0 lock lockA where
    t: "(Translate tp tn av, ft) \<in> set (calls ?w')"
    and c0: "stat ((snd (sp_run ?E (Translate tp tn av) ft))(tn := None)) ''out'' = Some (File c0)"
    and lock: "json_loads ?E c0 = Parsed lock"
    and lockA: "strip_and_reset lock = Inr lockA"
    and sA: "stat f ''out'' = Some (File (json_dumps ?E lockA))"
    by (elim exE conjE)
  from t have "fst (Translate tp tn av, ft) \<in> fst ` set (calls ?w')" by (rule imageI)
  then have "Translate tp tn av \<in> set (map fst (calls ?w'))" by simp
  then have tn: "tn = ''/tmp/args''" unfolding cs by simp
  have "stat ((snd (sp_run ?E (Translate tp tn av) ft))(tn := None)) ''out'' = Some (File ''LOCK'')"
    unfolding tn by (simp add: env_demo_def run_demo_def stat_def eval_nat_numeral)
  with c0 have "c0 = ''LOCK''" by simp
  with lock have "lock = lock_demo" by (simp add: env_demo_def loads_demo_def)
  with lockA have "lockA = lock_demo_A" by (simp add: strip_and_reset_demo)
  with sA fin have a: "stat (fsys ?w') ''out'' = Some (File (dumps_demo lock_demo_A))"
    by (simp add: env_demo_def)
  have b: "dumps_demo lock_demo_A \<noteq> dumps_demo lock_demo"
    "dumps_demo lock_demo_A \<noteq> dumps_demo lock_demo_B"
    by (simp_all add: lock_demo_A_def lock_demo_def lock_demo_B_def)
  from r a b show ?thesis by simp
qed
subsection \<open>The argument merge\<close>



end
